theory Spec2Isabelle
  imports Main
begin

section \<open>The declaration graph read by the module builder\<close>

text \<open>
  A declaration is identified by \<open>Decl::getID()\<close> (an \<open>int64_t\<close>; only equality of
  identities is used). The graph is owned by the frontend; the builder reads it through
  the accessors below, one record field per accessor the sources call.
\<close>

type_synonym ident = int

type_synonym comment = string
type_synonym qual_type = string
type_synonym expr = string

text \<open>
  The dynamic class of a declaration, as far as the visitors distinguish it. Every class
  that has no \<open>Visit...\<close> override on its path to \<open>Decl\<close> is \<open>OtherDecl\<close>.
\<close>

datatype decl_kind =
    TranslationUnit | Namespace | LinkageSpec | AccessSpec | Friend | StaticAssert | Empty
  | Using | UsingDirective | UsingShadow | Field | IndirectField
  | Typedef | TypeAlias | TemplateTypeParm | UnresolvedUsingTypename
  | Enum | Record | CXXRecord | ClassTemplateSpecialization
  | ClassTemplatePartialSpecialization
  | EnumConstant
  | Function | CXXDeductionGuide | CXXMethod | CXXConstructor | CXXDestructor | CXXConversion
  | Var | ParmVar | ImplicitParam | Decomposition
  | VarTemplateSpecialization | VarTemplatePartialSpecialization
  | BuiltinTemplate | ClassTemplate | FunctionTemplate | VarTemplate | TypeAliasTemplate
  | OtherDecl

record decl =
  kind :: decl_kind
  decls :: "ident list"
  isImplicit :: bool
  isDeleted :: bool
  getDefinition :: "ident option"
  getPreviousDecl :: "ident option"
  isDependentContext :: bool
  isTemplated :: bool
  isStaticLocal :: bool
  isCanonicalDecl :: bool
  getRawComment :: "comment option"
  specializations :: "ident list"
  getTemplatedDecl :: ident
  getFriendDecl :: "ident option"
  getNameAsString :: string
  getType :: qual_type
  getInit :: "expr option"

text \<open>\<open>isa<VarDecl>\<close>, \<open>isa<ClassTemplateSpecializationDecl>\<close> and the other class tests.\<close>

definition isa_VarDecl :: "decl_kind \<Rightarrow> bool" where
  "isa_VarDecl k = (k = Var \<or> k = ParmVar \<or> k = ImplicitParam \<or> k = Decomposition
     \<or> k = VarTemplateSpecialization \<or> k = VarTemplatePartialSpecialization)"

definition isa_ClassTemplateSpecializationDecl :: "decl_kind \<Rightarrow> bool" where
  "isa_ClassTemplateSpecializationDecl k =
     (k = ClassTemplateSpecialization \<or> k = ClassTemplatePartialSpecialization)"

definition isa_FunctionDecl :: "decl_kind \<Rightarrow> bool" where
  "isa_FunctionDecl k = (k = Function \<or> k = CXXDeductionGuide \<or> k = CXXMethod
     \<or> k = CXXConstructor \<or> k = CXXDestructor \<or> k = CXXConversion)"

definition isa_CXXMethodDecl :: "decl_kind \<Rightarrow> bool" where
  "isa_CXXMethodDecl k =
     (k = CXXMethod \<or> k = CXXConstructor \<or> k = CXXDestructor \<or> k = CXXConversion)"

definition isa_RecordDecl :: "decl_kind \<Rightarrow> bool" where
  "isa_RecordDecl k = (k = Record \<or> k = CXXRecord \<or> k = ClassTemplateSpecialization
     \<or> k = ClassTemplatePartialSpecialization)"

section \<open>Flags, the module and the bucket rule\<close>

text \<open>
  Modelled from the spec: \<open>Module::Flags\<close> is declared in ModuleBuilder.hpp, which is
  not among the sources. The specification's traversal flags are an immutable record of
  the booleans \<open>in_template\<close> and \<open>in_specialization\<close>; each step derives a new
  value, and the flags are empty (\<open>none\<close>) when neither is set.
\<close>

record Flags =
  in_template :: bool
  in_specialization :: bool

definition no_flags :: Flags where
  "no_flags = \<lparr>in_template = False, in_specialization = False\<rparr>"

definition set_template :: "Flags \<Rightarrow> Flags" where
  "set_template f = f\<lparr>in_template := True\<rparr>"

definition set_specialization :: "Flags \<Rightarrow> Flags" where
  "set_specialization f = f\<lparr>in_specialization := True\<rparr>"

definition none :: "Flags \<Rightarrow> bool" where
  "none f = (\<not> in_template f \<and> \<not> in_specialization f)"

record Module =
  definitions :: "ident list"
  declarations :: "ident list"
  template_definitions :: "ident list"
  template_declarations :: "ident list"
  asserts :: "ident list"

definition empty_Module :: Module where
  "empty_Module = \<lparr>definitions = [], declarations = [], template_definitions = [],
     template_declarations = [], asserts = []\<rparr>"

definition add_assert :: "ident \<Rightarrow> Module \<Rightarrow> Module" where
  "add_assert d m = m\<lparr>asserts := asserts m @ [d]\<rparr>"

text \<open>
  \<open>add_decl\<close> takes the two lists by reference; here it returns the pair
  \<open>(decls, tdecls)\<close> after the \<open>push_back\<close>s.
\<close>

definition add_decl :: "ident list \<Rightarrow> ident list \<Rightarrow> ident \<Rightarrow> Flags \<Rightarrow> ident list \<times> ident list" where
  "add_decl ds tdecls d flags =
     (if in_template flags then (ds, tdecls @ [d])
      else (ds @ [d], if in_specialization flags then tdecls @ [d] else tdecls))"

definition add_definition :: "ident \<Rightarrow> Flags \<Rightarrow> Module \<Rightarrow> Module" where
  "add_definition d flags m =
     (case add_decl (definitions m) (template_definitions m) d flags of
        (ds, ts) \<Rightarrow> m\<lparr>definitions := ds, template_definitions := ts\<rparr>)"

definition add_declaration :: "ident \<Rightarrow> Flags \<Rightarrow> Module \<Rightarrow> Module" where
  "add_declaration d flags m =
     (case add_decl (declarations m) (template_declarations m) d flags of
        (ds, ts) \<Rightarrow> m\<lparr>declarations := ds, template_declarations := ts\<rparr>)"

section \<open>The builder\<close>

text \<open>
  Modelled from the spec: \<open>Filter::What\<close> is declared in Filter.hpp, which is not among
  the sources. The verdicts are the three of the specification, Nothing, Declaration and
  Definition; \<open>What_rank\<close> is their order as integers (each verdict includes more than
  the one before), which \<open>VisitFunctionDecl\<close> compares with: a result at least
  Definition is the specification's "accepted as a true Definition".
\<close>

datatype What = NOTHING | DECLARATION | DEFINITION

fun What_rank :: "What \<Rightarrow> nat" where
  "What_rank NOTHING = 0"
| "What_rank DECLARATION = 1"
| "What_rank DEFINITION = 2"

text \<open>
  The members of \<open>BuildModule\<close> that never change are the environment: the filter (a
  function of the declaration; the identity names the declaration), the \<open>templates\<close>
  switch and the graph. The members that change are the state: the module, the visited
  set, and the calls made on the external collaborators (filter, specification
  collector, log) in the order they are made.
\<close>

record env =
  shouldInclude :: "ident \<Rightarrow> What"
  templates :: bool
  ast :: "ident \<Rightarrow> decl"

datatype call =
    ShouldInclude ident
  | AddSpecification ident comment
  | LogUnsupportedDecl ident
  | LogUnsupportedType ident

record state =
  module :: Module
  visited :: "ident set"
  calls :: "call list"

datatype error = OutOfFuel | AssertionFailed

type_synonym visitor = "ident \<Rightarrow> Flags \<Rightarrow> state \<Rightarrow> error + state"

definition initial :: state where
  "initial = \<lparr>module = empty_Module, visited = {}, calls = []\<rparr>"

definition go :: "env \<Rightarrow> ident \<Rightarrow> Flags \<Rightarrow> bool \<Rightarrow> state \<Rightarrow> What \<times> state" where
  "go E d flags definition st =
     (let what = shouldInclude E d;
          st1 = st\<lparr>calls := calls st @ [ShouldInclude d]\<rparr>
      in case what of
           DEFINITION \<Rightarrow>
             if definition then (what, st1\<lparr>module := add_definition d flags (module st1)\<rparr>)
             else (DECLARATION, st1\<lparr>module := add_declaration d flags (module st1)\<rparr>)
         | DECLARATION \<Rightarrow> (DECLARATION, st1\<lparr>module := add_declaration d flags (module st1)\<rparr>)
         | NOTHING \<Rightarrow> (NOTHING, st1))"


text \<open>A range-\<open>for\<close> over declarations that calls \<open>this->Visit(i, flags)\<close> on each.\<close>

fun for_each :: "visitor \<Rightarrow> ident list \<Rightarrow> Flags \<Rightarrow> state \<Rightarrow> error + state" where
  "for_each visit [] flags st = Inr st"
| "for_each visit (i # rest) flags st =
     (case visit i flags st of Inl e \<Rightarrow> Inl e | Inr st' \<Rightarrow> for_each visit rest flags st')"

text \<open>
  The handlers, one per \<open>Visit...\<close> member. A handler that calls \<open>this->Visit\<close> takes
  the guarded visitor as its first argument; the others return the new state.
\<close>

definition VisitDecl :: "env \<Rightarrow> ident \<Rightarrow> Flags \<Rightarrow> state \<Rightarrow> state" where
  "VisitDecl E d flags st = st\<lparr>calls := calls st @ [LogUnsupportedDecl d]\<rparr>"

definition VisitVarTemplateDecl :: "visitor \<Rightarrow> env \<Rightarrow> visitor" where
  "VisitVarTemplateDecl visit E d flags st =
     (let st1 = (if templates E then snd (go E d (set_template flags) True st) else st)
      in for_each visit (specializations (ast E d)) (set_specialization flags) st1)"

definition VisitStaticAssertDecl :: "env \<Rightarrow> ident \<Rightarrow> Flags \<Rightarrow> state \<Rightarrow> state" where
  "VisitStaticAssertDecl E d flags st = st\<lparr>module := add_assert d (module st)\<rparr>"

definition VisitTranslationUnitDecl :: "visitor \<Rightarrow> env \<Rightarrow> visitor" where
  "VisitTranslationUnitDecl visit E d flags st =
     (if \<not> none flags then Inl AssertionFailed
      else for_each visit (decls (ast E d)) flags st)"

definition VisitTypeDecl :: "env \<Rightarrow> ident \<Rightarrow> Flags \<Rightarrow> state \<Rightarrow> state" where
  "VisitTypeDecl E d flags st = st\<lparr>calls := calls st @ [LogUnsupportedType d]\<rparr>"

definition VisitTypedefNameDecl :: "env \<Rightarrow> ident \<Rightarrow> Flags \<Rightarrow> state \<Rightarrow> state" where
  "VisitTypedefNameDecl E d flags st = snd (go E d flags True st)"

definition VisitTagDecl :: "env \<Rightarrow> ident \<Rightarrow> Flags \<Rightarrow> state \<Rightarrow> state" where
  "VisitTagDecl E d flags st =
     (let defn = getDefinition (ast E d)
      in if defn = Some d then snd (go E d flags True st)
         else if defn = None \<and> getPreviousDecl (ast E d) = None
              then snd (go E d flags False st)
         else st)"

definition VisitCXXRecordDecl :: "visitor \<Rightarrow> env \<Rightarrow> visitor" where
  "VisitCXXRecordDecl visit E d flags st =
     (if isImplicit (ast E d) then Inr st
      else if \<not> in_specialization flags \<and> isa_ClassTemplateSpecializationDecl (kind (ast E d))
           then Inr st
      else case for_each visit (decls (ast E d)) flags st of
             Inl e \<Rightarrow> Inl e
           | Inr st' \<Rightarrow> Inr (VisitTagDecl E d flags st'))"

text \<open>The search for static local variables in the body of a function.\<close>

fun static_locals :: "env \<Rightarrow> ident list \<Rightarrow> Flags \<Rightarrow> state \<Rightarrow> state" where
  "static_locals E [] flags st = st"
| "static_locals E (i # rest) flags st =
     static_locals E rest flags
       (if isa_VarDecl (kind (ast E i)) \<and> isStaticLocal (ast E i)
        then snd (go E i flags True st) else st)"

definition VisitFunctionDecl :: "env \<Rightarrow> ident \<Rightarrow> Flags \<Rightarrow> state \<Rightarrow> state" where
  "VisitFunctionDecl E d flags st =
     (if \<not> templates E \<and> isDependentContext (ast E d) then st
      else let defn = getDefinition (ast E d)
        in if defn = Some d
           then let st1 = (case getRawComment (ast E d) of
                             Some c \<Rightarrow> st\<lparr>calls := calls st @ [AddSpecification d c]\<rparr>
                           | None \<Rightarrow> st);
                    r = go E d flags True st1
                in if What_rank DEFINITION \<le> What_rank (fst r)
                   then static_locals E (decls (ast E d)) flags (snd r)
                   else snd r
           else if defn = None \<and> getPreviousDecl (ast E d) = None
                then snd (go E d flags False st)
           else st)"

text \<open>
  The visitor base's \<open>VisitCXXMethodDecl\<close> hands over to the next class up that has a
  handler, here \<open>VisitFunctionDecl\<close>; its \<open>VisitCXXConstructorDecl\<close> and
  \<open>VisitCXXDestructorDecl\<close> hand over to \<open>VisitCXXMethodDecl\<close>.
\<close>

definition VisitCXXMethodDecl :: "env \<Rightarrow> ident \<Rightarrow> Flags \<Rightarrow> state \<Rightarrow> state" where
  "VisitCXXMethodDecl E d flags st =
     (if isDeleted (ast E d) then st else VisitFunctionDecl E d flags st)"

definition VisitEnumConstantDecl :: "env \<Rightarrow> ident \<Rightarrow> Flags \<Rightarrow> state \<Rightarrow> state" where
  "VisitEnumConstantDecl E d flags st = snd (go E d flags True st)"

definition VisitVarDecl :: "env \<Rightarrow> ident \<Rightarrow> Flags \<Rightarrow> state \<Rightarrow> state" where
  "VisitVarDecl E d flags st =
     (if \<not> templates E \<and> \<not> isTemplated (ast E d) then st
      else snd (go E d flags True st))"

definition VisitNamespaceDecl :: "visitor \<Rightarrow> env \<Rightarrow> visitor" where
  "VisitNamespaceDecl visit E d flags st =
     (if \<not> none flags then Inl AssertionFailed
      else for_each visit (decls (ast E d)) flags st)"

text \<open>
  \<open>EnumDecl::enumerators()\<close> of the frontend: the \<open>EnumConstantDecl\<close>s among the
  declarations of the enum's definition, or of the enum itself when it has none.
\<close>

definition enumerators :: "env \<Rightarrow> ident \<Rightarrow> ident list" where
  "enumerators E d =
     (let e = (case getDefinition (ast E d) of Some defn \<Rightarrow> defn | None \<Rightarrow> d)
      in filter (\<lambda>i. kind (ast E i) = EnumConstant) (decls (ast E e)))"

fun go_each :: "env \<Rightarrow> ident list \<Rightarrow> Flags \<Rightarrow> state \<Rightarrow> state" where
  "go_each E [] flags st = st"
| "go_each E (i # rest) flags st = go_each E rest flags (snd (go E i flags True st))"

definition VisitEnumDecl :: "env \<Rightarrow> ident \<Rightarrow> Flags \<Rightarrow> state \<Rightarrow> state" where
  "VisitEnumDecl E d flags st =
     (if \<not> isCanonicalDecl (ast E d) then st
      else go_each E (enumerators E d) flags (snd (go E d flags True st)))"

definition VisitLinkageSpecDecl :: "visitor \<Rightarrow> env \<Rightarrow> visitor" where
  "VisitLinkageSpecDecl visit E d flags st =
     (if \<not> none flags then Inl AssertionFailed
      else for_each visit (decls (ast E d)) flags st)"

definition VisitCXXConstructorDecl :: "env \<Rightarrow> ident \<Rightarrow> Flags \<Rightarrow> state \<Rightarrow> state" where
  "VisitCXXConstructorDecl E d flags st =
     (if isDeleted (ast E d) then st else VisitCXXMethodDecl E d flags st)"

definition VisitCXXDestructorDecl :: "env \<Rightarrow> ident \<Rightarrow> Flags \<Rightarrow> state \<Rightarrow> state" where
  "VisitCXXDestructorDecl E d flags st =
     (if isDeleted (ast E d) then st else VisitCXXMethodDecl E d flags st)"

definition VisitFunctionTemplateDecl :: "visitor \<Rightarrow> env \<Rightarrow> visitor" where
  "VisitFunctionTemplateDecl visit E d flags st =
     (let st1 = (if templates E then snd (go E d (set_template flags) True st) else st)
      in for_each visit (specializations (ast E d)) (set_specialization flags) st1)"

definition VisitClassTemplateDecl :: "visitor \<Rightarrow> env \<Rightarrow> visitor" where
  "VisitClassTemplateDecl visit E d flags st =
     (case (if templates E then visit (getTemplatedDecl (ast E d)) (set_template flags) st
            else Inr st) of
        Inl e \<Rightarrow> Inl e
      | Inr st1 \<Rightarrow> for_each visit (specializations (ast E d)) (set_specialization flags) st1)"

definition VisitFriendDecl :: "visitor \<Rightarrow> env \<Rightarrow> visitor" where
  "VisitFriendDecl visit E d flags st =
     (case getFriendDecl (ast E d) of
        Some target \<Rightarrow> visit target flags st
      | None \<Rightarrow> Inr st)"

text \<open>
  Modelled from the spec: \<open>Visitor::Visit\<close> is the dispatch of DeclVisitorWithArgs.h,
  which is not among the sources. The specification has it dispatch by declaration kind
  over a closed set of kinds, with the plain declaration and the plain type declaration
  as default cases: a declaration goes to the handler of its dynamic class, and where
  \<open>BuildModule\<close> has none for that class, to the handler of the nearest base class
  that has one, along the frontend's class hierarchy.
\<close>

definition dispatch :: "visitor \<Rightarrow> env \<Rightarrow> visitor" where
  "dispatch visit E d flags st =
     (case kind (ast E d) of
        TranslationUnit \<Rightarrow> VisitTranslationUnitDecl visit E d flags st
      | Namespace \<Rightarrow> VisitNamespaceDecl visit E d flags st
      | LinkageSpec \<Rightarrow> VisitLinkageSpecDecl visit E d flags st
      | AccessSpec \<Rightarrow> Inr st
      | Friend \<Rightarrow> VisitFriendDecl visit E d flags st
      | StaticAssert \<Rightarrow> Inr (VisitStaticAssertDecl E d flags st)
      | Empty \<Rightarrow> Inr st
      | Using \<Rightarrow> Inr st
      | UsingDirective \<Rightarrow> Inr st
      | UsingShadow \<Rightarrow> Inr st
      | Field \<Rightarrow> Inr st
      | IndirectField \<Rightarrow> Inr st
      | Typedef \<Rightarrow> Inr (VisitTypedefNameDecl E d flags st)
      | TypeAlias \<Rightarrow> Inr (VisitTypedefNameDecl E d flags st)
      | TemplateTypeParm \<Rightarrow> Inr (VisitTypeDecl E d flags st)
      | UnresolvedUsingTypename \<Rightarrow> Inr (VisitTypeDecl E d flags st)
      | Enum \<Rightarrow> Inr (VisitEnumDecl E d flags st)
      | Record \<Rightarrow> Inr (VisitTagDecl E d flags st)
      | CXXRecord \<Rightarrow> VisitCXXRecordDecl visit E d flags st
      | ClassTemplateSpecialization \<Rightarrow> VisitCXXRecordDecl visit E d flags st
      | ClassTemplatePartialSpecialization \<Rightarrow> VisitCXXRecordDecl visit E d flags st
      | EnumConstant \<Rightarrow> Inr (VisitEnumConstantDecl E d flags st)
      | Function \<Rightarrow> Inr (VisitFunctionDecl E d flags st)
      | CXXDeductionGuide \<Rightarrow> Inr (VisitFunctionDecl E d flags st)
      | CXXMethod \<Rightarrow> Inr (VisitCXXMethodDecl E d flags st)
      | CXXConstructor \<Rightarrow> Inr (VisitCXXConstructorDecl E d flags st)
      | CXXDestructor \<Rightarrow> Inr (VisitCXXDestructorDecl E d flags st)
      | CXXConversion \<Rightarrow> Inr (VisitCXXMethodDecl E d flags st)
      | Var \<Rightarrow> Inr (VisitVarDecl E d flags st)
      | ParmVar \<Rightarrow> Inr (VisitVarDecl E d flags st)
      | ImplicitParam \<Rightarrow> Inr (VisitVarDecl E d flags st)
      | Decomposition \<Rightarrow> Inr (VisitVarDecl E d flags st)
      | VarTemplateSpecialization \<Rightarrow> Inr (VisitVarDecl E d flags st)
      | VarTemplatePartialSpecialization \<Rightarrow> Inr (VisitVarDecl E d flags st)
      | BuiltinTemplate \<Rightarrow> Inr st
      | ClassTemplate \<Rightarrow> VisitClassTemplateDecl visit E d flags st
      | FunctionTemplate \<Rightarrow> VisitFunctionTemplateDecl visit E d flags st
      | VarTemplate \<Rightarrow> VisitVarTemplateDecl visit E d flags st
      | TypeAliasTemplate \<Rightarrow> Inr st
      | OtherDecl \<Rightarrow> Inr (VisitDecl E d flags st))"

text \<open>
  \<open>BuildModule::Visit\<close>, the cycle guard. The recursion of the source ends because the
  graph is finite; here the first argument bounds the depth of nested visits, and a
  visit that would go deeper is \<open>OutOfFuel\<close>.
\<close>

primrec Visit :: "nat \<Rightarrow> env \<Rightarrow> visitor" where
  "Visit 0 E = (\<lambda>d flags st.
     if d \<notin> visited st then Inl OutOfFuel else Inr st)"
| "Visit (Suc n) E = (\<lambda>d flags st.
     if d \<notin> visited st
     then dispatch (Visit n E) E d flags (st\<lparr>visited := insert d (visited st)\<rparr>)
     else Inr st)"

definition build_module :: "nat \<Rightarrow> env \<Rightarrow> ident \<Rightarrow> error + state" where
  "build_module n E tu = VisitTranslationUnitDecl (Visit n E) E tu no_flags initial"


section \<open>Printing a local declaration\<close>

text \<open>
  Modelled from the spec: Formatter.hpp and CoqPrinter.hpp are not among the sources.
  \<open>CoqPrinter::output()\<close> is a \<open>fmt::Formatter\<close>; what is written to it is the
  sequence of strings and manipulators (\<open>fmt::lparen\<close>, \<open>fmt::rparen\<close>, \<open>fmt::nbsp\<close>,
  \<open>fmt::line\<close>) in the order written. The output is the specification's textual
  grammar of parenthesised terms; \<open>render\<close> writes each manipulator as the character it
  is named after.
\<close>

datatype fmt = lparen | rparen | nbsp | line | str string | error_marker string

record CoqPrinter =
  formatter :: "fmt list"
  diagnostics :: "string list"

definition out :: "fmt list \<Rightarrow> CoqPrinter \<Rightarrow> CoqPrinter" where
  "out items print = print\<lparr>formatter := formatter print @ items\<rparr>"

text \<open>
  Modelled from the spec: \<open>CoqPrinter::ctor\<close> (CoqPrinter.hpp) opens a constructor
  application, a unit of the output that is "fully parenthesized" and starts with its
  tag: an optional line break, the opening parenthesis, the constructor and a space.
  The caller closes the parenthesis, as \<open>PrintLocalDecl::VisitVarDecl\<close> does with the
  \<open>fmt::rparen\<close> after the expression.
\<close>

definition ctor :: "string \<Rightarrow> bool \<Rightarrow> CoqPrinter \<Rightarrow> CoqPrinter" where
  "ctor name ln print = out ((if ln then [line] else []) @ [lparen, str name, nbsp]) print"

text \<open>
  Modelled from the spec: \<open>CoqPrinter::error()\<close>, the sink that \<open>print.error() << msg\<close>
  writes to, is declared in CoqPrinter.hpp, which is not among the sources. The
  specification says of the printer that unsupported or malformed input produces an
  explicit inline error marker in the output stream plus a diagnostic.
\<close>

definition print_error :: "string \<Rightarrow> CoqPrinter \<Rightarrow> CoqPrinter" where
  "print_error msg print =
     print\<lparr>formatter := formatter print @ [error_marker msg],
            diagnostics := diagnostics print @ [msg]\<rparr>"

text \<open>
  \<open>ClangPrinter::printQualType\<close> and \<open>ClangPrinter::printExpr\<close> are not among the
  sources: what they write for a type and for an expression is given by the printer.
\<close>

record ClangPrinter =
  type_term :: "qual_type \<Rightarrow> fmt list"
  expr_term :: "expr \<Rightarrow> fmt list"

definition printQualType :: "ClangPrinter \<Rightarrow> qual_type \<Rightarrow> CoqPrinter \<Rightarrow> CoqPrinter" where
  "printQualType cprint qt print = out (type_term cprint qt) print"

definition printExpr :: "ClangPrinter \<Rightarrow> expr \<Rightarrow> CoqPrinter \<Rightarrow> CoqPrinter" where
  "printExpr cprint e print = out (expr_term cprint e) print"

definition PrintLocalDecl_VisitVarDecl :: "decl \<Rightarrow> CoqPrinter \<Rightarrow> ClangPrinter \<Rightarrow> CoqPrinter" where
  "PrintLocalDecl_VisitVarDecl D print cprint =
     (let p1 = out [lparen, str [CHR 0x22], str (getNameAsString D), str [CHR 0x22, CHR '',''],
                    nbsp] print;
          p2 = printQualType cprint (getType D) p1;
          p3 = out [str '','', nbsp] p2;
          p4 = (case getInit D of
                  Some e \<Rightarrow> out [rparen] (printExpr cprint e (ctor ''Some'' False p3))
                | None \<Rightarrow> out [str ''None''] p3)
      in out [rparen] p4)"

definition PrintLocalDecl_VisitDecl :: "decl \<Rightarrow> CoqPrinter \<Rightarrow> ClangPrinter \<Rightarrow> CoqPrinter" where
  "PrintLocalDecl_VisitDecl D print cprint = print_error ''unexpected local declaration'' print"

text \<open>
  \<open>PrintLocalDecl::printer.Visit\<close>: \<open>VisitVarDecl\<close> for a \<open>VarDecl\<close> and each class
  derived from it, \<open>VisitDecl\<close> for every other declaration.
\<close>

definition printLocalDecl :: "ClangPrinter \<Rightarrow> decl \<Rightarrow> CoqPrinter \<Rightarrow> CoqPrinter" where
  "printLocalDecl cprint D print =
     (if isa_VarDecl (kind D) then PrintLocalDecl_VisitVarDecl D print cprint
      else PrintLocalDecl_VisitDecl D print cprint)"

fun render_fmt :: "fmt \<Rightarrow> string" where
  "render_fmt lparen = ''(''"
| "render_fmt rparen = '')''"
| "render_fmt nbsp = '' ''"
| "render_fmt line = [CHR 0x0A]"
| "render_fmt (str s) = s"
| "render_fmt (error_marker msg) = msg"

definition render :: "fmt list \<Rightarrow> string" where
  "render items = concat (map render_fmt items)"


section \<open>What the traversal keeps true\<close>

text \<open>
  \<open>go_site E d at_definition\<close> collects, per class of declaration, the conditions under
  which some handler calls \<open>go\<close> on \<open>d\<close> with that \<open>definition\<close> argument. A module
  is \<open>classified\<close> when each entry of its lists comes from such a call with the matching
  verdict of the filter.
\<close>

definition go_site :: "env \<Rightarrow> ident \<Rightarrow> bool \<Rightarrow> bool" where
  "go_site E d at_definition =
     (let D = ast E d; k = kind D
      in if k = Typedef \<or> k = TypeAlias \<or> k = EnumConstant then at_definition
         else if k = Enum then at_definition \<and> isCanonicalDecl D
         else if isa_RecordDecl k
              then (if at_definition then getDefinition D = Some d
                    else getDefinition D = None \<and> getPreviousDecl D = None)
         else if isa_FunctionDecl k
              then (templates E \<or> \<not> isDependentContext D)
                 \<and> \<not> (isa_CXXMethodDecl k \<and> isDeleted D)
                 \<and> (if at_definition then getDefinition D = Some d
                    else getDefinition D = None \<and> getPreviousDecl D = None)
         else if isa_VarDecl k
              then at_definition \<and> (templates E \<or> isTemplated D \<or> isStaticLocal D)
         else if k = FunctionTemplate \<or> k = VarTemplate then at_definition \<and> templates E
         else False)"

definition classified :: "env \<Rightarrow> Module \<Rightarrow> bool" where
  "classified E m =
     ((\<forall>x \<in> set (definitions m) \<union> set (template_definitions m).
         go_site E x True \<and> shouldInclude E x = DEFINITION)
    \<and> (\<forall>x \<in> set (declarations m) \<union> set (template_declarations m).
         (go_site E x True \<and> shouldInclude E x = DECLARATION)
       \<or> (go_site E x False \<and> shouldInclude E x \<noteq> NOTHING))
    \<and> (\<forall>x \<in> set (asserts m). kind (ast E x) = StaticAssert))"

definition extends :: "env \<Rightarrow> state \<Rightarrow> state \<Rightarrow> bool" where
  "extends E st st' =
     (visited st \<subseteq> visited st' \<and> (classified E (module st) \<longrightarrow> classified E (module st')))"


text \<open>The handlers that visit: each result of the visitor extends the state it began with.\<close>

definition extending :: "env \<Rightarrow> visitor \<Rightarrow> bool" where
  "extending E visit = (\<forall>i flags st st'. visit i flags st = Inr st' \<longrightarrow> extends E st st')"


text \<open>
  A graph is closed in a finite set of declarations when every edge the traversal follows
  from a member leads to a member; a visitor is fuelled at depth \<open>n\<close> when it answers
  on every state that leaves at most \<open>n\<close> members unvisited.
\<close>

definition closed_graph :: "env \<Rightarrow> ident set \<Rightarrow> bool" where
  "closed_graph E U =
     (finite U \<and>
      (\<forall>d \<in> U. set (decls (ast E d)) \<subseteq> U \<and> set (specializations (ast E d)) \<subseteq> U
         \<and> (kind (ast E d) = ClassTemplate \<longrightarrow> getTemplatedDecl (ast E d) \<in> U)
         \<and> (\<forall>t. getFriendDecl (ast E d) = Some t \<longrightarrow> t \<in> U)))"

definition fuelled :: "ident set \<Rightarrow> nat \<Rightarrow> visitor \<Rightarrow> bool" where
  "fuelled U n visit =
     (\<forall>i \<in> U. \<forall>flags st. card (U - visited st) \<le> n \<longrightarrow> visit i flags st \<noteq> Inl OutOfFuel)"

text \<open>
  The occurrences of a declaration in the main lists and in the template lists. The
  handlers call \<open>go\<close> on a declaration other than the one they handle only for static
  local variables and enumerators; every other declaration is \<open>self_classified\<close>, by
  its own handler alone. A \<open>step\<close> from the visited set \<open>V\<close> to \<open>V'\<close> leaves the
  counts of the members of \<open>V\<close> alone, raises no count by more than one, and raises
  counts of members of \<open>V'\<close> only.
\<close>

definition main_count :: "Module \<Rightarrow> ident \<Rightarrow> nat" where
  "main_count m x = count_list (definitions m) x + count_list (declarations m) x"

definition template_count :: "Module \<Rightarrow> ident \<Rightarrow> nat" where
  "template_count m x =
     count_list (template_definitions m) x + count_list (template_declarations m) x"

definition self_classified :: "env \<Rightarrow> ident \<Rightarrow> bool" where
  "self_classified E x =
     (kind (ast E x) \<noteq> EnumConstant
      \<and> \<not> (isa_VarDecl (kind (ast E x)) \<and> isStaticLocal (ast E x)))"

definition same_counts :: "env \<Rightarrow> Module \<Rightarrow> Module \<Rightarrow> bool" where
  "same_counts E m m' =
     (\<forall>x. self_classified E x \<longrightarrow>
        main_count m' x = main_count m x \<and> template_count m' x = template_count m x)"

definition own_step :: "env \<Rightarrow> ident \<Rightarrow> Module \<Rightarrow> Module \<Rightarrow> bool" where
  "own_step E d m m' =
     (\<forall>x. self_classified E x \<longrightarrow>
        (x \<noteq> d \<longrightarrow> main_count m' x = main_count m x \<and> template_count m' x = template_count m x)
      \<and> main_count m' x \<le> main_count m x + 1
      \<and> template_count m' x \<le> template_count m x + 1)"

definition step :: "env \<Rightarrow> ident set \<Rightarrow> ident set \<Rightarrow> Module \<Rightarrow> Module \<Rightarrow> bool" where
  "step E V V' m m' =
     (V \<subseteq> V' \<and>
      (\<forall>x. self_classified E x \<longrightarrow>
         (x \<in> V \<longrightarrow> main_count m' x = main_count m x \<and> template_count m' x = template_count m x)
       \<and> main_count m' x \<le> main_count m x + 1
       \<and> template_count m' x \<le> template_count m x + 1
       \<and> (main_count m' x \<noteq> main_count m x \<or> template_count m' x \<noteq> template_count m x
            \<longrightarrow> x \<in> V')))"

definition stepping :: "env \<Rightarrow> visitor \<Rightarrow> bool" where
  "stepping E visit =
     (\<forall>i flags st st'. visit i flags st = Inr st' \<longrightarrow>
        step E (visited st) (visited st') (module st) (module st'))"

section \<open>Example graphs\<close>

definition plain :: decl where
  "plain = \<lparr>kind = OtherDecl, decls = [], isImplicit = False, isDeleted = False,
     getDefinition = None, getPreviousDecl = None, isDependentContext = False,
     isTemplated = False, isStaticLocal = False, isCanonicalDecl = True,
     getRawComment = None, specializations = [], getTemplatedDecl = 0,
     getFriendDecl = None, getNameAsString = [], getType = [], getInit = None\<rparr>"

definition accept_all :: "ident \<Rightarrow> What" where
  "accept_all d = DEFINITION"

text \<open>
  \<^verbatim>\<open>extern int x;  int x = 0;\<close> \<^medskip>
  Declaration 1 is the non-defining occurrence, 2 the definition.
\<close>

definition vars_ast :: "ident \<Rightarrow> decl" where
  "vars_ast d =
     (if d = 0 then plain\<lparr>kind := TranslationUnit, decls := [1, 2]\<rparr>
      else if d = 1 then plain\<lparr>kind := Var, getDefinition := Some 2\<rparr>
      else if d = 2 then plain\<lparr>kind := Var, getDefinition := Some 2,
                               getPreviousDecl := Some 1, isCanonicalDecl := False\<rparr>
      else plain)"

definition vars_env :: env where
  "vars_env = \<lparr>shouldInclude = accept_all, templates = True, ast = vars_ast\<rparr>"

text \<open>
  \<^verbatim>\<open>struct S;  struct S {};  void f();  void f() {}  void g();\<close> \<^medskip>
  Declarations 1 to 5 in this order.
\<close>

definition redecl_ast :: "ident \<Rightarrow> decl" where
  "redecl_ast d =
     (if d = 0 then plain\<lparr>kind := TranslationUnit, decls := [1, 2, 3, 4, 5]\<rparr>
      else if d = 1 then plain\<lparr>kind := CXXRecord, getDefinition := Some 2\<rparr>
      else if d = 2 then plain\<lparr>kind := CXXRecord, getDefinition := Some 2,
                               getPreviousDecl := Some 1, isCanonicalDecl := False\<rparr>
      else if d = 3 then plain\<lparr>kind := Function, getDefinition := Some 4\<rparr>
      else if d = 4 then plain\<lparr>kind := Function, getDefinition := Some 4,
                               getPreviousDecl := Some 3, isCanonicalDecl := False\<rparr>
      else if d = 5 then plain\<lparr>kind := Function\<rparr>
      else plain)"

definition redecl_env :: env where
  "redecl_env = \<lparr>shouldInclude = accept_all, templates = False, ast = redecl_ast\<rparr>"

text \<open>
  \<^verbatim>\<open>struct A { A() = delete; void m() = delete; void k() {} };  void h() = delete;\<close> \<^medskip>
  The class is 10, its members 11, 12 and 13, the deleted free function 20.
\<close>

definition deleted_ast :: "ident \<Rightarrow> decl" where
  "deleted_ast d =
     (if d = 0 then plain\<lparr>kind := TranslationUnit, decls := [10, 20]\<rparr>
      else if d = 10 then plain\<lparr>kind := CXXRecord, decls := [11, 12, 13],
                                getDefinition := Some 10\<rparr>
      else if d = 11 then plain\<lparr>kind := CXXConstructor, isDeleted := True,
                                getDefinition := Some 11\<rparr>
      else if d = 12 then plain\<lparr>kind := CXXMethod, isDeleted := True,
                                getDefinition := Some 12\<rparr>
      else if d = 13 then plain\<lparr>kind := CXXMethod, getDefinition := Some 13\<rparr>
      else if d = 20 then plain\<lparr>kind := Function, isDeleted := True,
                                getDefinition := Some 20\<rparr>
      else plain)"

definition deleted_env :: env where
  "deleted_env = \<lparr>shouldInclude = accept_all, templates = False, ast = deleted_ast\<rparr>"

text \<open>
  \<^verbatim>\<open>template<class T> int S<T>::x = 0;  int g = 0;\<close> \<^medskip>
  Declaration 1 is the out-of-line definition of a static member of a class template
  (a variable in a dependent context), 2 an ordinary global.
\<close>

definition gating_ast :: "ident \<Rightarrow> decl" where
  "gating_ast d =
     (if d = 0 then plain\<lparr>kind := TranslationUnit, decls := [1, 2]\<rparr>
      else if d = 1 then plain\<lparr>kind := Var, getDefinition := Some 1, isTemplated := True\<rparr>
      else if d = 2 then plain\<lparr>kind := Var, getDefinition := Some 2\<rparr>
      else plain)"

definition gating_env :: env where
  "gating_env = \<lparr>shouldInclude = accept_all, templates = False, ast = gating_ast\<rparr>"

text \<open>
  \<^verbatim>\<open>/** spec */ void f() { static int s; int t; }\<close> \<^medskip>
  The function is 1, its static local 2, its automatic local 3.
\<close>

definition body_ast :: "ident \<Rightarrow> decl" where
  "body_ast d =
     (if d = 0 then plain\<lparr>kind := TranslationUnit, decls := [1]\<rparr>
      else if d = 1 then plain\<lparr>kind := Function, decls := [2, 3], getDefinition := Some 1,
                               getRawComment := Some ''spec''\<rparr>
      else if d = 2 then plain\<lparr>kind := Var, isStaticLocal := True, getDefinition := Some 2\<rparr>
      else if d = 3 then plain\<lparr>kind := Var, getDefinition := Some 3\<rparr>
      else plain)"

definition body_env :: env where
  "body_env = \<lparr>shouldInclude = accept_all, templates = False, ast = body_ast\<rparr>"

definition reject_all :: "ident \<Rightarrow> What" where
  "reject_all d = NOTHING"

definition excluded_env :: env where
  "excluded_env = \<lparr>shouldInclude = reject_all, templates = False, ast = body_ast\<rparr>"

text \<open>
  \<^verbatim>\<open>template<class T> void f(T) {}  template<> void f<int>(int) {}\<close> \<^medskip>
  The template is 1; its explicit specialization 2 is a child of the translation unit
  and a specialization of 1, so two edges lead to it.
\<close>

definition shared_ast :: "ident \<Rightarrow> decl" where
  "shared_ast d =
     (if d = 0 then plain\<lparr>kind := TranslationUnit, decls := [1, 2]\<rparr>
      else if d = 1 then plain\<lparr>kind := FunctionTemplate, specializations := [2]\<rparr>
      else if d = 2 then plain\<lparr>kind := Function, getDefinition := Some 2\<rparr>
      else plain)"

definition shared_env :: env where
  "shared_env = \<lparr>shouldInclude = accept_all, templates = False, ast = shared_ast\<rparr>"

text \<open>A printer of types and expressions, and the local variable \<^verbatim>\<open>int x\<close>.\<close>

definition sample_cprint :: ClangPrinter where
  "sample_cprint = \<lparr>type_term = (\<lambda>t. [str (''T'' @ t)]), expr_term = (\<lambda>e. [str e])\<rparr>"

definition empty_print :: CoqPrinter where
  "empty_print = \<lparr>formatter = [], diagnostics = []\<rparr>"

definition local_x :: decl where
  "local_x = plain\<lparr>kind := Var, getNameAsString := ''x'', getType := ''int''\<rparr>"

definition enum_ast :: "ident \<Rightarrow> decl" where
  "enum_ast d =
     (if d = 0 then plain\<lparr>kind := TranslationUnit, decls := [1, 2]\<rparr>
      else if d = 1 then plain\<lparr>kind := Enum, getDefinition := Some 2\<rparr>
      else if d = 2 then plain\<lparr>kind := Enum, decls := [3], getDefinition := Some 2,
                               getPreviousDecl := Some 1, isCanonicalDecl := False\<rparr>
      else if d = 3 then plain\<lparr>kind := EnumConstant\<rparr>
      else plain)"

definition enum_env :: env where
  "enum_env = \<lparr>shouldInclude = accept_all, templates = False, ast = enum_ast\<rparr>"

definition redecl_final :: state where
  "redecl_final =
     \<lparr>module = \<lparr>definitions = [2, 4], declarations = [5], template_definitions = [],
                 template_declarations = [], asserts = []\<rparr>,
      visited = {1, 2, 3, 4, 5},
      calls = [ShouldInclude 2, ShouldInclude 4, ShouldInclude 5]\<rparr>"

text \<open>Verdicts, flags and final states used with the example graphs.\<close>

definition declare_all :: "ident \<Rightarrow> What" where
  "declare_all d = DECLARATION"

definition declared_env :: env where
  "declared_env = \<lparr>shouldInclude = declare_all, templates = False, ast = body_ast\<rparr>"

definition body_final :: state where
  "body_final =
     \<lparr>module = \<lparr>definitions = [1, 2], declarations = [], template_definitions = [],
                 template_declarations = [], asserts = []\<rparr>,
      visited = {},
      calls = [AddSpecification 1 ''spec'', ShouldInclude 1, ShouldInclude 2]\<rparr>"

definition tmpl_flags :: Flags where
  "tmpl_flags = \<lparr>in_template = True, in_specialization = False\<rparr>"

definition spec_flags :: Flags where
  "spec_flags = \<lparr>in_template = False, in_specialization = True\<rparr>"

definition deleted_final :: state where
  "deleted_final =
     \<lparr>module = \<lparr>definitions = [13, 10, 20], declarations = [], template_definitions = [],
                 template_declarations = [], asserts = []\<rparr>,
      visited = {10, 11, 12, 13, 20},
      calls = [ShouldInclude 13, ShouldInclude 10, ShouldInclude 20]\<rparr>"

definition shared_mid :: state where
  "shared_mid =
     \<lparr>module = \<lparr>definitions = [2], declarations = [], template_definitions = [2],
                 template_declarations = [], asserts = []\<rparr>,
      visited = {2},
      calls = [ShouldInclude 2]\<rparr>"

definition shared_final :: state where
  "shared_final = shared_mid\<lparr>visited := {1, 2}\<rparr>"

definition gating_final :: state where
  "gating_final =
     \<lparr>module = \<lparr>definitions = [1], declarations = [], template_definitions = [],
                 template_declarations = [], asserts = []\<rparr>,
      visited = {1, 2},
      calls = [ShouldInclude 1]\<rparr>"

definition excluded_final :: state where
  "excluded_final =
     \<lparr>module = empty_Module, visited = {},
      calls = [AddSpecification 1 ''spec'', ShouldInclude 1]\<rparr>"

text \<open>
  \<^verbatim>\<open>template<class T> T v = T();  template<> int v<int> = 0;\<close> \<^medskip>
  The variable template is 1; its explicit specialization 2 is a child of the translation
  unit and a specialization of 1, so two edges lead to it. Template emission is enabled.
  The states are those after the first visit of 2, after a later visit of 1, and of the
  built module.
\<close>

definition varspec_ast :: "ident \<Rightarrow> decl" where
  "varspec_ast d =
     (if d = 0 then plain\<lparr>kind := TranslationUnit, decls := [1, 2]\<rparr>
      else if d = 1 then plain\<lparr>kind := VarTemplate, specializations := [2]\<rparr>
      else if d = 2 then plain\<lparr>kind := VarTemplateSpecialization, getDefinition := Some 2\<rparr>
      else plain)"

definition varspec_env :: env where
  "varspec_env = \<lparr>shouldInclude = accept_all, templates = True, ast = varspec_ast\<rparr>"

definition varspec_mid :: state where
  "varspec_mid =
     \<lparr>module = \<lparr>definitions = [2], declarations = [], template_definitions = [2],
                 template_declarations = [], asserts = []\<rparr>,
      visited = {2},
      calls = [ShouldInclude 2]\<rparr>"

definition varspec_after :: state where
  "varspec_after =
     \<lparr>module = \<lparr>definitions = [2], declarations = [], template_definitions = [2, 1],
                 template_declarations = [], asserts = []\<rparr>,
      visited = {1, 2},
      calls = [ShouldInclude 2, ShouldInclude 1]\<rparr>"

definition varspec_final :: state where
  "varspec_final =
     \<lparr>module = \<lparr>definitions = [2], declarations = [], template_definitions = [1, 2],
                 template_declarations = [], asserts = []\<rparr>,
      visited = {1, 2},
      calls = [ShouldInclude 1, ShouldInclude 2]\<rparr>"

text \<open>
  \<^verbatim>\<open>struct A { /** spec */ void m() = delete; };\<close> \<^medskip>
  The class is 10, its deleted method with the comment is 1.
\<close>

definition commented_deleted_ast :: "ident \<Rightarrow> decl" where
  "commented_deleted_ast d =
     (if d = 0 then plain\<lparr>kind := TranslationUnit, decls := [10]\<rparr>
      else if d = 10 then plain\<lparr>kind := CXXRecord, decls := [1], getDefinition := Some 10\<rparr>
      else if d = 1 then plain\<lparr>kind := CXXMethod, isDeleted := True, getDefinition := Some 1,
                               getRawComment := Some ''spec''\<rparr>
      else plain)"

definition commented_deleted_env :: env where
  "commented_deleted_env =
     \<lparr>shouldInclude = accept_all, templates = False, ast = commented_deleted_ast\<rparr>"

definition commented_deleted_final :: state where
  "commented_deleted_final =
     \<lparr>module = \<lparr>definitions = [10], declarations = [], template_definitions = [],
                 template_declarations = [], asserts = []\<rparr>,
      visited = {1, 10},
      calls = [ShouldInclude 10]\<rparr>"

section \<open>The traversal extends the state\<close>

lemma extends_refl: "extends E st st"
  by (simp add: extends_def)

lemma extends_trans: "extends E a b \<Longrightarrow> extends E b c \<Longrightarrow> extends E a c"
  by (auto simp: extends_def)

lemma go_extends: "go_site E d b \<Longrightarrow> extends E st (snd (go E d flags b st))"
  by (cases "shouldInclude E d"; cases b)
     (auto simp: extends_def classified_def go_def Let_def add_definition_def
        add_declaration_def add_decl_def)

lemma go_each_extends:
  "\<forall>i \<in> set xs. go_site E i True \<Longrightarrow> extends E st (go_each E xs flags st)"
proof (induction xs arbitrary: st)
  case Nil
  show ?case by (simp add: extends_refl)
next
  case (Cons i xs)
  have "extends E st (snd (go E i flags True st))"
    using Cons.prems by (simp add: go_extends)
  moreover have "extends E (snd (go E i flags True st)) (go_each E xs flags (snd (go E i flags True st)))"
    using Cons.prems by (intro Cons.IH) simp
  ultimately have "extends E st (go_each E xs flags (snd (go E i flags True st)))"
    by (rule extends_trans)
  then show ?case by simp
qed

lemma static_locals_extends: "extends E st (static_locals E xs flags st)"
proof (induction xs arbitrary: st)
  case Nil
  show ?case by (simp add: extends_refl)
next
  case (Cons i xs)
  let ?st1 = "if isa_VarDecl (kind (ast E i)) \<and> isStaticLocal (ast E i)
              then snd (go E i flags True st) else st"
  have "extends E st ?st1"
    by (auto simp: extends_refl go_site_def Let_def isa_VarDecl_def isa_RecordDecl_def
          isa_FunctionDecl_def intro!: go_extends)
  moreover have "extends E ?st1 (static_locals E xs flags ?st1)"
    by (rule Cons.IH)
  ultimately have "extends E st (static_locals E xs flags ?st1)"
    by (rule extends_trans)
  then show ?case by simp
qed


lemma VisitTagDecl_extends:
  "isa_RecordDecl (kind (ast E d)) \<Longrightarrow> extends E st (VisitTagDecl E d flags st)"
  by (auto simp: VisitTagDecl_def Let_def extends_refl go_site_def isa_RecordDecl_def
        intro!: go_extends)

lemma VisitFunctionDecl_extends:
  assumes "isa_FunctionDecl (kind (ast E d))"
    and "\<not> (isa_CXXMethodDecl (kind (ast E d)) \<and> isDeleted (ast E d))"
  shows "extends E st (VisitFunctionDecl E d flags st)"
proof -
  have k: "kind (ast E d) \<noteq> Typedef" "kind (ast E d) \<noteq> TypeAlias"
    "kind (ast E d) \<noteq> EnumConstant" "kind (ast E d) \<noteq> Enum"
    "\<not> isa_RecordDecl (kind (ast E d))"
    using assms(1) by (auto simp: isa_FunctionDecl_def isa_RecordDecl_def)
  show ?thesis
  proof (cases "\<not> templates E \<and> isDependentContext (ast E d)")
    case True
    then show ?thesis by (simp add: VisitFunctionDecl_def extends_refl)
  next
    case enabled: False
    show ?thesis
    proof (cases "getDefinition (ast E d) = Some d")
      case True
      let ?st1 = "case getRawComment (ast E d) of
                    Some c \<Rightarrow> st\<lparr>calls := calls st @ [AddSpecification d c]\<rparr>
                  | None \<Rightarrow> st"
      have a: "extends E st ?st1"
        by (simp add: extends_def split: option.splits)
      have site: "go_site E d True"
        using assms enabled True k by (simp add: go_site_def Let_def)
      have b: "extends E ?st1 (snd (go E d flags True ?st1))"
        using site by (rule go_extends)
      have c: "extends E (snd (go E d flags True ?st1))
                 (static_locals E (decls (ast E d)) flags (snd (go E d flags True ?st1)))"
        by (rule static_locals_extends)
      have "extends E st (snd (go E d flags True ?st1))"
        using a b by (rule extends_trans)
      moreover from this c have "extends E st
          (static_locals E (decls (ast E d)) flags (snd (go E d flags True ?st1)))"
        by (rule extends_trans)
      ultimately show ?thesis
        using enabled True by (auto simp: VisitFunctionDecl_def Let_def)
    next
      case False
      show ?thesis
      proof (cases "getDefinition (ast E d) = None \<and> getPreviousDecl (ast E d) = None")
        case True
        have "go_site E d False"
          using assms enabled True k by (simp add: go_site_def Let_def)
        then have "extends E st (snd (go E d flags False st))"
          by (rule go_extends)
        then show ?thesis
          using enabled True by (auto simp: VisitFunctionDecl_def Let_def)
      next
        case nothing: False
        then show ?thesis
          using enabled False by (auto simp: VisitFunctionDecl_def Let_def extends_refl)
      qed
    qed
  qed
qed

lemma VisitCXXMethodDecl_extends:
  "isa_CXXMethodDecl (kind (ast E d)) \<Longrightarrow> extends E st (VisitCXXMethodDecl E d flags st)"
  by (auto simp: VisitCXXMethodDecl_def extends_refl isa_CXXMethodDecl_def isa_FunctionDecl_def
        intro!: VisitFunctionDecl_extends)

lemma VisitCXXConstructorDecl_extends:
  "isa_CXXMethodDecl (kind (ast E d)) \<Longrightarrow> extends E st (VisitCXXConstructorDecl E d flags st)"
  by (simp add: VisitCXXConstructorDecl_def extends_refl VisitCXXMethodDecl_extends)

lemma VisitCXXDestructorDecl_extends:
  "isa_CXXMethodDecl (kind (ast E d)) \<Longrightarrow> extends E st (VisitCXXDestructorDecl E d flags st)"
  by (simp add: VisitCXXDestructorDecl_def extends_refl VisitCXXMethodDecl_extends)

lemma VisitVarDecl_extends:
  "isa_VarDecl (kind (ast E d)) \<Longrightarrow> extends E st (VisitVarDecl E d flags st)"
  by (auto simp: VisitVarDecl_def extends_refl go_site_def Let_def isa_VarDecl_def
        isa_RecordDecl_def isa_FunctionDecl_def intro!: go_extends)

lemma VisitEnumDecl_extends:
  assumes "kind (ast E d) = Enum"
  shows "extends E st (VisitEnumDecl E d flags st)"
proof (cases "isCanonicalDecl (ast E d)")
  case True
  have "go_site E d True"
    using assms True by (simp add: go_site_def)
  then have a: "extends E st (snd (go E d flags True st))"
    by (rule go_extends)
  have "\<forall>i \<in> set (enumerators E d). go_site E i True"
    by (simp add: enumerators_def go_site_def Let_def)
  then have "extends E (snd (go E d flags True st))
               (go_each E (enumerators E d) flags (snd (go E d flags True st)))"
    by (rule go_each_extends)
  with a have "extends E st (go_each E (enumerators E d) flags (snd (go E d flags True st)))"
    by (rule extends_trans)
  then show ?thesis
    using True by (simp add: VisitEnumDecl_def)
next
  case False
  then show ?thesis by (simp add: VisitEnumDecl_def extends_refl)
qed

lemma VisitEnumConstantDecl_extends:
  "kind (ast E d) = EnumConstant \<Longrightarrow> extends E st (VisitEnumConstantDecl E d flags st)"
  by (simp add: VisitEnumConstantDecl_def go_site_def go_extends)

lemma VisitTypedefNameDecl_extends:
  "kind (ast E d) = Typedef \<or> kind (ast E d) = TypeAlias
     \<Longrightarrow> extends E st (VisitTypedefNameDecl E d flags st)"
  by (auto simp: VisitTypedefNameDecl_def go_site_def intro!: go_extends)

lemma VisitStaticAssertDecl_extends:
  "kind (ast E d) = StaticAssert \<Longrightarrow> extends E st (VisitStaticAssertDecl E d flags st)"
  by (simp add: VisitStaticAssertDecl_def extends_def classified_def add_assert_def)

lemma VisitDecl_extends: "extends E st (VisitDecl E d flags st)"
  by (simp add: VisitDecl_def extends_def)

lemma VisitTypeDecl_extends: "extends E st (VisitTypeDecl E d flags st)"
  by (simp add: VisitTypeDecl_def extends_def)

lemma for_each_extends:
  "extending E visit \<Longrightarrow> for_each visit xs flags st = Inr st' \<Longrightarrow> extends E st st'"
proof (induction xs arbitrary: st)
  case Nil
  then show ?case by (simp add: extends_refl)
next
  case (Cons i xs)
  from Cons.prems(2) obtain st1 where v: "visit i flags st = Inr st1"
    and r: "for_each visit xs flags st1 = Inr st'"
    by (auto split: sum.splits)
  have "extends E st st1"
    using Cons.prems(1) v by (auto simp: extending_def)
  moreover have "extends E st1 st'"
    using Cons.prems(1) r by (rule Cons.IH)
  ultimately show ?case by (rule extends_trans)
qed


lemma container_extends:
  "extending E visit \<Longrightarrow>
     (if \<not> none flags then Inl AssertionFailed
      else for_each visit xs flags st) = Inr st' \<Longrightarrow> extends E st st'"
  by (auto split: if_splits dest: for_each_extends)

lemma template_extends:
  assumes "extending E visit"
    and "kind (ast E d) = FunctionTemplate \<or> kind (ast E d) = VarTemplate"
    and "for_each visit xs flags'
           (if templates E then snd (go E d (set_template flags) True st) else st) = Inr st'"
  shows "extends E st st'"
proof -
  let ?st1 = "if templates E then snd (go E d (set_template flags) True st) else st"
  have "extends E st ?st1"
    using assms(2) by (auto simp: extends_refl go_site_def isa_RecordDecl_def
        isa_FunctionDecl_def isa_VarDecl_def intro!: go_extends)
  moreover have "extends E ?st1 st'"
    using assms(1,3) by (rule for_each_extends)
  ultimately show ?thesis by (rule extends_trans)
qed

lemma VisitClassTemplateDecl_extends:
  assumes "extending E visit" and "VisitClassTemplateDecl visit E d flags st = Inr st'"
  shows "extends E st st'"
proof -
  from assms(2) obtain st1 where
    a: "(if templates E then visit (getTemplatedDecl (ast E d)) (set_template flags) st
         else Inr st) = Inr st1"
    and b: "for_each visit (specializations (ast E d)) (set_specialization flags) st1 = Inr st'"
    by (auto simp: VisitClassTemplateDecl_def split: sum.splits)
  have "extends E st st1"
    using a assms(1) by (auto simp: extending_def extends_refl split: if_splits)
  moreover have "extends E st1 st'"
    using assms(1) b by (rule for_each_extends)
  ultimately show ?thesis by (rule extends_trans)
qed

lemma VisitFriendDecl_extends:
  "extending E visit \<Longrightarrow> VisitFriendDecl visit E d flags st = Inr st' \<Longrightarrow> extends E st st'"
  by (auto simp: VisitFriendDecl_def extending_def extends_refl split: option.splits)

lemma VisitCXXRecordDecl_extends:
  assumes "extending E visit" and "isa_RecordDecl (kind (ast E d))"
    and "VisitCXXRecordDecl visit E d flags st = Inr st'"
  shows "extends E st st'"
proof (cases "isImplicit (ast E d) \<or> (\<not> in_specialization flags
          \<and> isa_ClassTemplateSpecializationDecl (kind (ast E d)))")
  case True
  then have "st' = st"
    using assms(3) by (auto simp: VisitCXXRecordDecl_def split: if_splits)
  then show ?thesis by (simp add: extends_refl)
next
  case False
  with assms(3) obtain st1 where
    a: "for_each visit (decls (ast E d)) flags st = Inr st1"
    and b: "st' = VisitTagDecl E d flags st1"
    by (auto simp: VisitCXXRecordDecl_def split: sum.splits)
  have "extends E st st1"
    using assms(1) a by (rule for_each_extends)
  moreover have "extends E st1 st'"
    unfolding b using assms(2) by (rule VisitTagDecl_extends)
  ultimately show ?thesis by (rule extends_trans)
qed

lemma dispatch_extends:
  assumes "extending E visit" and "dispatch visit E d flags st = Inr st'"
  shows "extends E st st'"
proof (cases "kind (ast E d)")
  case TranslationUnit
  with assms show ?thesis
    by (auto simp: dispatch_def VisitTranslationUnitDecl_def dest: container_extends)
next
  case Namespace
  with assms show ?thesis
    by (auto simp: dispatch_def VisitNamespaceDecl_def dest: container_extends)
next
  case LinkageSpec
  with assms show ?thesis
    by (auto simp: dispatch_def VisitLinkageSpecDecl_def dest: container_extends)
next
  case Friend
  with assms show ?thesis
    by (auto simp: dispatch_def dest: VisitFriendDecl_extends)
next
  case CXXRecord
  with assms show ?thesis
    by (auto simp: dispatch_def isa_RecordDecl_def dest: VisitCXXRecordDecl_extends)
next
  case ClassTemplateSpecialization
  with assms show ?thesis
    by (auto simp: dispatch_def isa_RecordDecl_def dest: VisitCXXRecordDecl_extends)
next
  case ClassTemplatePartialSpecialization
  with assms show ?thesis
    by (auto simp: dispatch_def isa_RecordDecl_def dest: VisitCXXRecordDecl_extends)
next
  case ClassTemplate
  with assms show ?thesis
    by (auto simp: dispatch_def dest: VisitClassTemplateDecl_extends)
next
  case FunctionTemplate
  with assms show ?thesis
    by (auto simp: dispatch_def VisitFunctionTemplateDecl_def Let_def dest: template_extends)
next
  case VarTemplate
  with assms show ?thesis
    by (auto simp: dispatch_def VisitVarTemplateDecl_def Let_def dest: template_extends)
qed (use assms(2) in \<open>auto simp: dispatch_def extends_refl isa_RecordDecl_def
       isa_FunctionDecl_def isa_CXXMethodDecl_def isa_VarDecl_def
       VisitStaticAssertDecl_extends VisitTypedefNameDecl_extends VisitTypeDecl_extends
       VisitEnumDecl_extends VisitTagDecl_extends VisitEnumConstantDecl_extends
       VisitFunctionDecl_extends VisitCXXMethodDecl_extends VisitCXXConstructorDecl_extends
       VisitCXXDestructorDecl_extends VisitVarDecl_extends VisitDecl_extends\<close>)

lemma visited_insert_extends: "extends E st (st\<lparr>visited := insert d (visited st)\<rparr>)"
  by (auto simp: extends_def)

lemma Visit_extending: "extending E (Visit n E)"
proof (induction n)
  case 0
  show ?case by (auto simp: extending_def extends_refl split: if_splits)
next
  case (Suc n)
  show ?case
    unfolding extending_def
  proof (intro allI impI)
    fix i flags st st'
    assume r: "Visit (Suc n) E i flags st = Inr st'"
    show "extends E st st'"
    proof (cases "i \<in> visited st")
      case True
      with r show ?thesis by (simp add: extends_refl)
    next
      case False
      with r have "dispatch (Visit n E) E i flags (st\<lparr>visited := insert i (visited st)\<rparr>) = Inr st'"
        by simp
      with Suc have "extends E (st\<lparr>visited := insert i (visited st)\<rparr>) st'"
        by (rule dispatch_extends)
      with visited_insert_extends show ?thesis by (rule extends_trans)
    qed
  qed
qed

lemma Visit_visited:
  assumes "Visit n E d flags st = Inr st'"
  shows "d \<in> visited st'"
proof (cases "d \<in> visited st")
  case True
  with assms show ?thesis by (cases n) auto
next
  case False
  with assms obtain m where n: "n = Suc m" by (cases n) auto
  with assms False have "dispatch (Visit m E) E d flags (st\<lparr>visited := insert d (visited st)\<rparr>) = Inr st'"
    by simp
  with Visit_extending have "extends E (st\<lparr>visited := insert d (visited st)\<rparr>) st'"
    by (rule dispatch_extends)
  then show ?thesis by (auto simp: extends_def)
qed

lemma build_module_classified:
  assumes "build_module n E tu = Inr st"
  shows "classified E (module st)"
proof -
  have "extends E initial st"
    using Visit_extending assms unfolding build_module_def VisitTranslationUnitDecl_def
    by (rule container_extends)
  moreover have "classified E (module initial)"
    by (simp add: classified_def initial_def empty_Module_def)
  ultimately show ?thesis by (simp add: extends_def)
qed

section \<open>What go and the static local search do\<close>

lemma go_calls: "calls (snd (go E d flags b st)) = calls st @ [ShouldInclude d]"
  by (simp add: go_def Let_def split: What.splits)

lemma go_visited: "visited (snd (go E d flags b st)) = visited st"
  by (simp add: go_def Let_def split: What.splits)

lemma go_each_calls: "calls (go_each E xs flags st) = calls st @ map ShouldInclude xs"
  by (induction xs arbitrary: st) (simp_all add: go_calls)

lemma static_locals_go_each:
  "static_locals E xs flags st =
     go_each E (filter (\<lambda>i. isa_VarDecl (kind (ast E i)) \<and> isStaticLocal (ast E i)) xs) flags st"
  by (induction xs arbitrary: st) simp_all

lemma go_keeps:
  "set (definitions (module st)) \<subseteq> set (definitions (module (snd (go E d flags b st))))"
  "set (declarations (module st)) \<subseteq> set (declarations (module (snd (go E d flags b st))))"
  "set (template_definitions (module st))
     \<subseteq> set (template_definitions (module (snd (go E d flags b st))))"
  "set (template_declarations (module st))
     \<subseteq> set (template_declarations (module (snd (go E d flags b st))))"
  by (auto simp: go_def Let_def add_definition_def add_declaration_def add_decl_def
        split: What.splits)

lemma go_each_keeps:
  "set (definitions (module st)) \<subseteq> set (definitions (module (go_each E xs flags st)))"
  "set (declarations (module st)) \<subseteq> set (declarations (module (go_each E xs flags st)))"
  "set (template_definitions (module st))
     \<subseteq> set (template_definitions (module (go_each E xs flags st)))"
  "set (template_declarations (module st))
     \<subseteq> set (template_declarations (module (go_each E xs flags st)))"
proof (induction xs arbitrary: st)
  case Nil
  { case 1 show ?case by simp }
  { case 2 show ?case by simp }
  { case 3 show ?case by simp }
  { case 4 show ?case by simp }
next
  case (Cons i xs)
  { case 1 show ?case using go_keeps(1) Cons.IH(1) by (simp, blast) }
  { case 2 show ?case using go_keeps(2) Cons.IH(2) by (simp, blast) }
  { case 3 show ?case using go_keeps(3) Cons.IH(3) by (simp, blast) }
  { case 4 show ?case using go_keeps(4) Cons.IH(4) by (simp, blast) }
qed

lemma go_lists:
  "shouldInclude E d = DEFINITION \<Longrightarrow>
     d \<in> set (definitions (module (snd (go E d flags True st))))
       \<union> set (template_definitions (module (snd (go E d flags True st))))"
  "shouldInclude E d = DECLARATION \<Longrightarrow>
     d \<in> set (declarations (module (snd (go E d flags True st))))
       \<union> set (template_declarations (module (snd (go E d flags True st))))"
  "shouldInclude E d = NOTHING \<Longrightarrow> module (snd (go E d flags b st)) = module st"
  by (auto simp: go_def Let_def add_definition_def add_declaration_def add_decl_def)

lemma go_each_lists:
  "v \<in> set xs \<Longrightarrow> shouldInclude E v = DEFINITION \<Longrightarrow>
     v \<in> set (definitions (module (go_each E xs flags st)))
       \<union> set (template_definitions (module (go_each E xs flags st)))"
  "v \<in> set xs \<Longrightarrow> shouldInclude E v = DECLARATION \<Longrightarrow>
     v \<in> set (declarations (module (go_each E xs flags st)))
       \<union> set (template_declarations (module (go_each E xs flags st)))"
proof (induction xs arbitrary: st)
  case Nil
  { case 1 then show ?case by simp }
  { case 2 then show ?case by simp }
next
  case (Cons i xs)
  { case 1
    show ?case
    proof (cases "v = i")
      case True
      with 1 go_lists(1) [of E i flags st]
      show ?thesis
        using go_each_keeps(1,3) [of "snd (go E i flags True st)" E xs flags] by auto
    next
      case False
      with 1 Cons.IH(1) show ?thesis by simp
    qed }
  { case 2
    show ?case
    proof (cases "v = i")
      case True
      with 2 go_lists(2) [of E i flags st]
      show ?thesis
        using go_each_keeps(2,4) [of "snd (go E i flags True st)" E xs flags] by auto
    next
      case False
      with 2 Cons.IH(2) show ?thesis by simp
    qed }
qed

lemma go_each_nothing:
  "\<forall>v \<in> set xs. shouldInclude E v = NOTHING \<Longrightarrow> module (go_each E xs flags st) = module st"
  by (induction xs arbitrary: st) (simp_all add: go_lists(3))

lemma VisitFunctionDecl_accepted:
  assumes "templates E \<or> \<not> isDependentContext (ast E d)"
    and "getDefinition (ast E d) = Some d"
  shows "VisitFunctionDecl E d flags st =
     (let st1 = (case getRawComment (ast E d) of
                   Some c \<Rightarrow> st\<lparr>calls := calls st @ [AddSpecification d c]\<rparr>
                 | None \<Rightarrow> st)
      in if shouldInclude E d = DEFINITION
         then go_each E (filter (\<lambda>i. isa_VarDecl (kind (ast E i)) \<and> isStaticLocal (ast E i))
                (decls (ast E d))) flags (snd (go E d flags True st1))
         else snd (go E d flags True st1))"
  using assms
  by (cases "shouldInclude E d")
     (auto simp: VisitFunctionDecl_def Let_def static_locals_go_each go_def)

lemma render_append: "render (xs @ ys) = render xs @ render ys"
  by (simp add: render_def)

lemma render_simps:
  "render [] = []"
  "render (lparen # xs) = CHR ''('' # render xs"
  "render (rparen # xs) = CHR '')'' # render xs"
  "render (nbsp # xs) = CHR '' '' # render xs"
  "render (str s # xs) = s @ render xs"
  by (simp_all add: render_def)

section \<open>Enough depth\<close>

text \<open>
  On a graph closed in a finite set of declarations, a depth of the size of the set is
  enough: the traversal ends with a module, or at a container that was reached with
  flags set, never for lack of depth.
\<close>

lemma extends_card:
  assumes "finite U" and "extends E st st'" and "card (U - visited st) \<le> n"
  shows "card (U - visited st') \<le> n"
proof -
  have "U - visited st' \<subseteq> U - visited st"
    using assms(2) by (auto simp: extends_def)
  then have "card (U - visited st') \<le> card (U - visited st)"
    using assms(1) by (intro card_mono) auto
  with assms(3) show ?thesis by simp
qed

lemma for_each_fuelled:
  assumes "finite U" and "fuelled U n visit" and "extending E visit"
  shows "set xs \<subseteq> U \<Longrightarrow> card (U - visited st) \<le> n
           \<Longrightarrow> for_each visit xs flags st \<noteq> Inl OutOfFuel"
proof (induction xs arbitrary: st)
  case Nil
  show ?case by simp
next
  case (Cons i xs)
  show ?case
  proof (cases "visit i flags st")
    case (Inl e)
    have "e \<noteq> OutOfFuel"
      using assms(2) Cons.prems Inl by (auto simp: fuelled_def)
    with Inl show ?thesis by simp
  next
    case (Inr st1)
    have "extends E st st1"
      using assms(3) Inr by (auto simp: extending_def)
    with assms(1) have "card (U - visited st1) \<le> n"
      using Cons.prems(2) by (rule extends_card)
    with Cons.IH [of st1] Cons.prems(1) Inr show ?thesis by simp
  qed
qed

lemma dispatch_fuelled:
  assumes "closed_graph E U" and "fuelled U n visit" and "extending E visit"
    and "d \<in> U" and "card (U - visited st) \<le> n"
  shows "dispatch visit E d flags st \<noteq> Inl OutOfFuel"
proof -
  have fin: "finite U"
    using assms(1) by (simp add: closed_graph_def)
  have ch: "set (decls (ast E d)) \<subseteq> U" "set (specializations (ast E d)) \<subseteq> U"
    using assms(1,4) by (auto simp: closed_graph_def)
  have loop: "for_each visit xs fl st' \<noteq> Inl OutOfFuel"
    if "set xs \<subseteq> U" "card (U - visited st') \<le> n" for xs fl st'
    using fin assms(2,3) that by (rule for_each_fuelled)
  have loop_go: "for_each visit xs fl (snd (go E d fl' b st)) \<noteq> Inl OutOfFuel"
    if "set xs \<subseteq> U" for xs fl fl' b
    using that assms(5) by (intro loop) (simp_all add: go_visited)
  show ?thesis
  proof (cases "kind (ast E d)")
    case TranslationUnit
    then show ?thesis
      using loop [OF ch(1) assms(5)] by (simp add: dispatch_def VisitTranslationUnitDecl_def)
  next
    case Namespace
    then show ?thesis
      using loop [OF ch(1) assms(5)] by (simp add: dispatch_def VisitNamespaceDecl_def)
  next
    case LinkageSpec
    then show ?thesis
      using loop [OF ch(1) assms(5)] by (simp add: dispatch_def VisitLinkageSpecDecl_def)
  next
    case Friend
    then show ?thesis
      using assms(1,2,4,5)
      by (auto simp: dispatch_def VisitFriendDecl_def closed_graph_def fuelled_def
            split: option.splits)
  next
    case CXXRecord
    then show ?thesis
      using loop [OF ch(1) assms(5)]
      by (auto simp: dispatch_def VisitCXXRecordDecl_def split: sum.splits)
  next
    case ClassTemplateSpecialization
    then show ?thesis
      using loop [OF ch(1) assms(5)]
      by (auto simp: dispatch_def VisitCXXRecordDecl_def split: sum.splits)
  next
    case ClassTemplatePartialSpecialization
    then show ?thesis
      using loop [OF ch(1) assms(5)]
      by (auto simp: dispatch_def VisitCXXRecordDecl_def split: sum.splits)
  next
    case FunctionTemplate
    then show ?thesis
      using loop [OF ch(2) assms(5)] loop_go [OF ch(2)]
      by (simp add: dispatch_def VisitFunctionTemplateDecl_def Let_def)
  next
    case VarTemplate
    then show ?thesis
      using loop [OF ch(2) assms(5)] loop_go [OF ch(2)]
      by (simp add: dispatch_def VisitVarTemplateDecl_def Let_def)
  next
    case ClassTemplate
    show ?thesis
    proof (cases "templates E")
      case False
      with ClassTemplate show ?thesis
        using loop [OF ch(2) assms(5)] by (simp add: dispatch_def VisitClassTemplateDecl_def)
    next
      case True
      have t: "getTemplatedDecl (ast E d) \<in> U"
        using assms(1,4) ClassTemplate by (auto simp: closed_graph_def)
      show ?thesis
      proof (cases "visit (getTemplatedDecl (ast E d)) (set_template flags) st")
        case (Inl e)
        have "e \<noteq> OutOfFuel"
          using assms(2,5) t Inl by (auto simp: fuelled_def)
        with Inl True ClassTemplate show ?thesis
          by (simp add: dispatch_def VisitClassTemplateDecl_def)
      next
        case (Inr st1)
        have "extends E st st1"
          using assms(3) Inr by (auto simp: extending_def)
        with fin have "card (U - visited st1) \<le> n"
          using assms(5) by (rule extends_card)
        with Inr True ClassTemplate show ?thesis
          using loop [OF ch(2), of st1] by (simp add: dispatch_def VisitClassTemplateDecl_def)
      qed
    qed
  qed (simp_all add: dispatch_def)
qed

lemma Visit_fuelled:
  assumes "closed_graph E U"
  shows "fuelled U n (Visit n E)"
proof (induction n)
  case 0
  show ?case
  proof (unfold fuelled_def, intro ballI allI impI)
    fix i flags and st :: state
    assume "i \<in> U" and "card (U - visited st) \<le> 0"
    moreover have "finite (U - visited st)"
      using assms by (simp add: closed_graph_def)
    ultimately have "i \<in> visited st" by auto
    then show "Visit 0 E i flags st \<noteq> Inl OutOfFuel" by simp
  qed
next
  case (Suc n)
  show ?case
  proof (unfold fuelled_def, intro ballI allI impI)
    fix i flags and st :: state
    assume i: "i \<in> U" and c: "card (U - visited st) \<le> Suc n"
    show "Visit (Suc n) E i flags st \<noteq> Inl OutOfFuel"
    proof (cases "i \<in> visited st")
      case True
      then show ?thesis by simp
    next
      case False
      have fin: "finite (U - visited st)"
        using assms by (simp add: closed_graph_def)
      have eq: "U - insert i (visited st) = (U - visited st) - {i}"
        by auto
      have "i \<in> U - visited st"
        using i False by simp
      with fin have "card ((U - visited st) - {i}) < card (U - visited st)"
        by (rule card_Diff1_less)
      then have "card (U - insert i (visited st)) < card (U - visited st)"
        by (simp only: eq)
      with c have "card (U - visited (st\<lparr>visited := insert i (visited st)\<rparr>)) \<le> n"
        by simp
      with assms Suc Visit_extending i
      have "dispatch (Visit n E) E i flags (st\<lparr>visited := insert i (visited st)\<rparr>)
              \<noteq> Inl OutOfFuel"
        by (rule dispatch_fuelled)
      with False show ?thesis by simp
    qed
  qed
qed

lemma build_module_fuelled:
  assumes "closed_graph E U" and "tu \<in> U" and "card U \<le> n"
  shows "build_module n E tu \<noteq> Inl OutOfFuel"
proof -
  have fin: "finite U"
    using assms(1) by (simp add: closed_graph_def)
  have "set (decls (ast E tu)) \<subseteq> U"
    using assms(1,2) by (auto simp: closed_graph_def)
  moreover have "card (U - visited initial) \<le> n"
    using assms(3) by (simp add: initial_def)
  ultimately have "for_each (Visit n E) (decls (ast E tu)) no_flags initial \<noteq> Inl OutOfFuel"
    using fin Visit_fuelled [OF assms(1)] Visit_extending by (intro for_each_fuelled)
  then show ?thesis
    by (simp add: build_module_def VisitTranslationUnitDecl_def)
qed

text \<open>The graph with the shared specialization, as an instance.\<close>

lemma shared_closed_graph: "closed_graph shared_env {0, 1, 2}"
  by (simp add: closed_graph_def shared_env_def shared_ast_def plain_def)

lemma shared_enough_depth: "build_module 3 shared_env 0 \<noteq> Inl OutOfFuel"
  using shared_closed_graph by (rule build_module_fuelled) simp_all

section \<open>Each declaration is classified by one visit\<close>

lemma step_refl: "step E V V m m"
  by (simp add: step_def)

lemma step_trans:
  assumes "step E V V' a b" and "step E V' V'' b c"
  shows "step E V V'' a c"
  unfolding step_def
proof (intro conjI allI impI)
  show "V \<subseteq> V''"
    using assms by (auto simp: step_def)
next
  fix x
  assume k: "self_classified E x"
  let ?M = "\<lambda>m. main_count m x" and ?T = "\<lambda>m. template_count m x"
  have ab: "x \<in> V \<Longrightarrow> ?M b = ?M a \<and> ?T b = ?T a" "?M b \<le> ?M a + 1" "?T b \<le> ?T a + 1"
    "?M b \<noteq> ?M a \<or> ?T b \<noteq> ?T a \<Longrightarrow> x \<in> V'"
    using assms(1) k unfolding step_def by blast+
  have bc: "x \<in> V' \<Longrightarrow> ?M c = ?M b \<and> ?T c = ?T b" "?M c \<le> ?M b + 1" "?T c \<le> ?T b + 1"
    "?M c \<noteq> ?M b \<or> ?T c \<noteq> ?T b \<Longrightarrow> x \<in> V''"
    using assms(2) k unfolding step_def by blast+
  have sub: "V \<subseteq> V'" "V' \<subseteq> V''"
    using assms by (auto simp: step_def)
  show "?M c = ?M a" if "x \<in> V"
    using that ab(1) bc(1) sub by auto
  show "?T c = ?T a" if "x \<in> V"
    using that ab(1) bc(1) sub by auto
  show "?M c \<le> ?M a + 1"
  proof (cases "x \<in> V'")
    case True
    with bc(1) ab(2) show ?thesis by simp
  next
    case False
    with ab(4) have "?M b = ?M a" by blast
    with bc(2) show ?thesis by simp
  qed
  show "?T c \<le> ?T a + 1"
  proof (cases "x \<in> V'")
    case True
    with bc(1) ab(3) show ?thesis by simp
  next
    case False
    with ab(4) have "?T b = ?T a" by blast
    with bc(3) show ?thesis by simp
  qed
  show "x \<in> V''" if ch: "?M c \<noteq> ?M a \<or> ?T c \<noteq> ?T a"
  proof (cases "x \<in> V'")
    case True
    with sub show ?thesis by auto
  next
    case False
    with ab(4) have "?M b = ?M a" "?T b = ?T a" by blast+
    with ch bc(4) show ?thesis by simp
  qed
qed

lemma step_weaken: "step E V V' m m' \<Longrightarrow> W \<subseteq> V \<Longrightarrow> V' \<subseteq> W' \<Longrightarrow> step E W W' m m'"
  unfolding step_def by (intro conjI allI impI) blast+

lemma step_narrow: "step E V W m m' \<Longrightarrow> d \<in> V \<Longrightarrow> step E (V - {d}) (W - {d}) m m'"
  unfolding step_def by (intro conjI allI impI) blast+

lemma own_step_refl: "own_step E d m m"
  by (simp add: own_step_def)

lemma own_step_step: "own_step E d m m' \<Longrightarrow> V \<subseteq> V' \<Longrightarrow> d \<notin> V \<Longrightarrow> d \<in> V' \<Longrightarrow> step E V V' m m'"
  unfolding step_def own_step_def by (intro conjI allI impI) blast+

lemma same_counts_refl: "same_counts E m m"
  by (simp add: same_counts_def)

lemma same_counts_trans: "same_counts E a b \<Longrightarrow> same_counts E b c \<Longrightarrow> same_counts E a c"
  by (simp add: same_counts_def)

lemma own_then_same: "own_step E d a b \<Longrightarrow> same_counts E b c \<Longrightarrow> own_step E d a c"
  by (simp add: own_step_def same_counts_def)

lemma go_own_step: "own_step E d (module st) (module (snd (go E d flags b st)))"
  by (auto simp: own_step_def go_def Let_def add_definition_def add_declaration_def
        add_decl_def main_count_def template_count_def split: What.splits)

lemma go_same_counts:
  "\<not> self_classified E i
     \<Longrightarrow> same_counts E (module st) (module (snd (go E i flags b st)))"
  by (auto simp: same_counts_def go_def Let_def add_definition_def add_declaration_def
        add_decl_def main_count_def template_count_def split: What.splits)

lemma go_each_same_counts:
  "\<forall>i \<in> set xs. \<not> self_classified E i
     \<Longrightarrow> same_counts E (module st) (module (go_each E xs flags st))"
proof (induction xs arbitrary: st)
  case Nil
  show ?case by (simp add: same_counts_refl)
next
  case (Cons i xs)
  have "same_counts E (module st) (module (snd (go E i flags True st)))"
    using Cons.prems by (simp add: go_same_counts)
  moreover have "same_counts E (module (snd (go E i flags True st)))
      (module (go_each E xs flags (snd (go E i flags True st))))"
    using Cons.prems by (intro Cons.IH) simp
  ultimately have "same_counts E (module st)
      (module (go_each E xs flags (snd (go E i flags True st))))"
    by (rule same_counts_trans)
  then show ?case by simp
qed

lemma go_each_visited: "visited (go_each E xs flags st) = visited st"
  by (induction xs arbitrary: st) (simp_all add: go_visited)

lemma static_locals_visited: "visited (static_locals E xs flags st) = visited st"
  by (simp add: static_locals_go_each go_each_visited)

lemma static_locals_same_counts:
  "same_counts E (module st) (module (static_locals E xs flags st))"
  unfolding static_locals_go_each
  by (rule go_each_same_counts) (simp add: self_classified_def)

lemma VisitTagDecl_own:
  "own_step E d (module st) (module (VisitTagDecl E d flags st))
   \<and> visited (VisitTagDecl E d flags st) = visited st"
  by (simp add: VisitTagDecl_def Let_def own_step_refl go_own_step go_visited)

lemma VisitFunctionDecl_own:
  "own_step E d (module st) (module (VisitFunctionDecl E d flags st))
   \<and> visited (VisitFunctionDecl E d flags st) = visited st"
proof -
  let ?st1 = "case getRawComment (ast E d) of
                Some c \<Rightarrow> st\<lparr>calls := calls st @ [AddSpecification d c]\<rparr>
              | None \<Rightarrow> st"
  have m: "module ?st1 = module st" "visited ?st1 = visited st"
    by (simp_all split: option.splits)
  have a: "own_step E d (module st) (module (snd (go E d flags True ?st1)))"
    using go_own_step [of E d ?st1 flags True] by (simp only: m)
  have b: "own_step E d (module st)
            (module (static_locals E (decls (ast E d)) flags (snd (go E d flags True ?st1))))"
    using a static_locals_same_counts by (rule own_then_same)
  show ?thesis
    using a b m
    by (simp add: VisitFunctionDecl_def Let_def own_step_refl go_own_step go_visited
          static_locals_visited)
qed

lemma VisitCXXMethodDecl_own:
  "own_step E d (module st) (module (VisitCXXMethodDecl E d flags st))
   \<and> visited (VisitCXXMethodDecl E d flags st) = visited st"
  by (simp add: VisitCXXMethodDecl_def own_step_refl VisitFunctionDecl_own)

lemma VisitEnumDecl_own:
  "own_step E d (module st) (module (VisitEnumDecl E d flags st))
   \<and> visited (VisitEnumDecl E d flags st) = visited st"
proof -
  have "\<forall>i \<in> set (enumerators E d). \<not> self_classified E i"
    by (simp add: enumerators_def Let_def self_classified_def)
  then have "same_counts E (module (snd (go E d flags True st)))
      (module (go_each E (enumerators E d) flags (snd (go E d flags True st))))"
    by (rule go_each_same_counts)
  with go_own_step have "own_step E d (module st)
      (module (go_each E (enumerators E d) flags (snd (go E d flags True st))))"
    by (rule own_then_same)
  then show ?thesis
    by (simp add: VisitEnumDecl_def own_step_refl go_each_visited go_visited)
qed

lemma pure_handlers_own:
  "own_step E d (module st) (module (VisitDecl E d flags st))
   \<and> visited (VisitDecl E d flags st) = visited st"
  "own_step E d (module st) (module (VisitTypeDecl E d flags st))
   \<and> visited (VisitTypeDecl E d flags st) = visited st"
  "own_step E d (module st) (module (VisitStaticAssertDecl E d flags st))
   \<and> visited (VisitStaticAssertDecl E d flags st) = visited st"
  "own_step E d (module st) (module (VisitTypedefNameDecl E d flags st))
   \<and> visited (VisitTypedefNameDecl E d flags st) = visited st"
  "own_step E d (module st) (module (VisitEnumConstantDecl E d flags st))
   \<and> visited (VisitEnumConstantDecl E d flags st) = visited st"
  "own_step E d (module st) (module (VisitVarDecl E d flags st))
   \<and> visited (VisitVarDecl E d flags st) = visited st"
  "own_step E d (module st) (module (VisitCXXConstructorDecl E d flags st))
   \<and> visited (VisitCXXConstructorDecl E d flags st) = visited st"
  "own_step E d (module st) (module (VisitCXXDestructorDecl E d flags st))
   \<and> visited (VisitCXXDestructorDecl E d flags st) = visited st"
  by (simp_all add: VisitDecl_def VisitTypeDecl_def VisitStaticAssertDecl_def
        VisitTypedefNameDecl_def VisitEnumConstantDecl_def VisitVarDecl_def
        VisitCXXConstructorDecl_def VisitCXXDestructorDecl_def VisitCXXMethodDecl_own
        own_step_refl go_own_step go_visited)
     (simp add: own_step_def add_assert_def main_count_def template_count_def)

lemma own_handler_step:
  assumes "own_step E d (module st) (module st') \<and> visited st' = visited st"
    and "d \<in> visited st"
  shows "step E (visited st - {d}) (visited st') (module st) (module st')"
  using assms by (intro own_step_step) auto

lemma for_each_stepping:
  "stepping E visit \<Longrightarrow> for_each visit xs flags st = Inr st'
     \<Longrightarrow> step E (visited st) (visited st') (module st) (module st')"
proof (induction xs arbitrary: st)
  case Nil
  then show ?case by (simp add: step_refl)
next
  case (Cons i xs)
  from Cons.prems(2) obtain st1 where v: "visit i flags st = Inr st1"
    and r: "for_each visit xs flags st1 = Inr st'"
    by (auto split: sum.splits)
  have "step E (visited st) (visited st1) (module st) (module st1)"
    using Cons.prems(1) v by (auto simp: stepping_def)
  moreover have "step E (visited st1) (visited st') (module st1) (module st')"
    using Cons.prems(1) r by (rule Cons.IH)
  ultimately show ?case by (rule step_trans)
qed

lemma loop_step:
  assumes "stepping E visit" and "for_each visit xs flags st = Inr st'"
  shows "step E (visited st - {d}) (visited st') (module st) (module st')"
  using for_each_stepping [OF assms] by (rule step_weaken) auto

lemma container_step:
  "stepping E visit \<Longrightarrow>
     (if \<not> none flags then Inl AssertionFailed
      else for_each visit xs flags st) = Inr st'
   \<Longrightarrow> step E (visited st - {d}) (visited st') (module st) (module st')"
  by (auto split: if_splits dest: loop_step)

lemma template_step:
  assumes "stepping E visit" and "d \<in> visited st"
    and "for_each visit xs flags'
           (if templates E then snd (go E d (set_template flags) True st) else st) = Inr st'"
  shows "step E (visited st - {d}) (visited st') (module st) (module st')"
proof (cases "templates E")
  case False
  with assms(1,3) show ?thesis by (auto dest: loop_step)
next
  case True
  let ?st1 = "snd (go E d (set_template flags) True st)"
  have "step E (visited st - {d}) (visited ?st1) (module st) (module ?st1)"
    using go_own_step assms(2) by (intro own_step_step) (auto simp: go_visited)
  moreover have "step E (visited ?st1) (visited st') (module ?st1) (module st')"
    using assms(1,3) True by (auto dest: for_each_stepping)
  ultimately show ?thesis by (rule step_trans)
qed

lemma VisitClassTemplateDecl_step:
  assumes "stepping E visit" and "VisitClassTemplateDecl visit E d flags st = Inr st'"
  shows "step E (visited st - {d}) (visited st') (module st) (module st')"
proof -
  from assms(2) obtain st1 where
    a: "(if templates E then visit (getTemplatedDecl (ast E d)) (set_template flags) st
         else Inr st) = Inr st1"
    and b: "for_each visit (specializations (ast E d)) (set_specialization flags) st1 = Inr st'"
    by (auto simp: VisitClassTemplateDecl_def split: sum.splits)
  have "step E (visited st) (visited st1) (module st) (module st1)"
    using a assms(1) by (auto simp: stepping_def step_refl split: if_splits)
  moreover have "step E (visited st1) (visited st') (module st1) (module st')"
    using assms(1) b by (rule for_each_stepping)
  ultimately have "step E (visited st) (visited st') (module st) (module st')"
    by (rule step_trans)
  then show ?thesis by (rule step_weaken) auto
qed

lemma VisitFriendDecl_step:
  assumes "stepping E visit" and "VisitFriendDecl visit E d flags st = Inr st'"
  shows "step E (visited st - {d}) (visited st') (module st) (module st')"
proof -
  have "step E (visited st) (visited st') (module st) (module st')"
    using assms by (auto simp: VisitFriendDecl_def stepping_def step_refl split: option.splits)
  then show ?thesis by (rule step_weaken) auto
qed

lemma VisitCXXRecordDecl_step:
  assumes "stepping E visit" and "d \<in> visited st"
    and "VisitCXXRecordDecl visit E d flags st = Inr st'"
  shows "step E (visited st - {d}) (visited st') (module st) (module st')"
proof (cases "isImplicit (ast E d) \<or> (\<not> in_specialization flags
          \<and> isa_ClassTemplateSpecializationDecl (kind (ast E d)))")
  case True
  then have "st' = st"
    using assms(3) by (auto simp: VisitCXXRecordDecl_def split: if_splits)
  then show ?thesis by (auto intro: step_weaken [OF step_refl])
next
  case False
  with assms(3) obtain st1 where
    a: "for_each visit (decls (ast E d)) flags st = Inr st1"
    and b: "st' = VisitTagDecl E d flags st1"
    by (auto simp: VisitCXXRecordDecl_def split: sum.splits)
  have s1: "step E (visited st) (visited st1) (module st) (module st1)"
    using assms(1) a by (rule for_each_stepping)
  then have d1: "d \<in> visited st1"
    using assms(2) by (auto simp: step_def)
  from s1 assms(2) have "step E (visited st - {d}) (visited st1 - {d}) (module st) (module st1)"
    by (rule step_narrow)
  moreover have "step E (visited st1 - {d}) (visited st') (module st1) (module st')"
    unfolding b using VisitTagDecl_own d1 by (rule own_handler_step)
  ultimately show ?thesis by (rule step_trans)
qed

lemma dispatch_step:
  assumes "stepping E visit" and "d \<in> visited st" and "dispatch visit E d flags st = Inr st'"
  shows "step E (visited st - {d}) (visited st') (module st) (module st')"
proof -
  have same: "step E (visited st - {d}) (visited st) (module st) (module st)"
    by (auto intro: step_weaken [OF step_refl])
  note own = own_handler_step [OF _ assms(2)]
  show ?thesis
  proof (cases "kind (ast E d)")
    case TranslationUnit
    with assms show ?thesis
      by (auto simp: dispatch_def VisitTranslationUnitDecl_def dest: container_step)
  next
    case Namespace
    with assms show ?thesis
      by (auto simp: dispatch_def VisitNamespaceDecl_def dest: container_step)
  next
    case LinkageSpec
    with assms show ?thesis
      by (auto simp: dispatch_def VisitLinkageSpecDecl_def dest: container_step)
  next
    case Friend
    with assms show ?thesis
      by (auto simp: dispatch_def dest: VisitFriendDecl_step)
  next
    case CXXRecord
    with assms show ?thesis
      by (auto simp: dispatch_def dest: VisitCXXRecordDecl_step)
  next
    case ClassTemplateSpecialization
    with assms show ?thesis
      by (auto simp: dispatch_def dest: VisitCXXRecordDecl_step)
  next
    case ClassTemplatePartialSpecialization
    with assms show ?thesis
      by (auto simp: dispatch_def dest: VisitCXXRecordDecl_step)
  next
    case ClassTemplate
    with assms show ?thesis
      by (auto simp: dispatch_def dest: VisitClassTemplateDecl_step)
  next
    case FunctionTemplate
    with assms show ?thesis
      by (auto simp: dispatch_def VisitFunctionTemplateDecl_def Let_def dest: template_step)
  next
    case VarTemplate
    with assms show ?thesis
      by (auto simp: dispatch_def VisitVarTemplateDecl_def Let_def dest: template_step)
  qed (use assms(3) same in \<open>auto simp: dispatch_def
         intro: own [OF VisitTagDecl_own] own [OF VisitFunctionDecl_own]
           own [OF VisitCXXMethodDecl_own] own [OF VisitEnumDecl_own]
           own [OF pure_handlers_own(1)] own [OF pure_handlers_own(2)]
           own [OF pure_handlers_own(3)] own [OF pure_handlers_own(4)]
           own [OF pure_handlers_own(5)] own [OF pure_handlers_own(6)]
           own [OF pure_handlers_own(7)] own [OF pure_handlers_own(8)]\<close>)
qed

lemma Visit_stepping: "stepping E (Visit n E)"
proof (induction n)
  case 0
  show ?case by (auto simp: stepping_def step_refl split: if_splits)
next
  case (Suc n)
  show ?case
    unfolding stepping_def
  proof (intro allI impI)
    fix i flags and st st' :: state
    assume r: "Visit (Suc n) E i flags st = Inr st'"
    show "step E (visited st) (visited st') (module st) (module st')"
    proof (cases "i \<in> visited st")
      case True
      with r show ?thesis by (simp add: step_refl)
    next
      case False
      let ?st1 = "st\<lparr>visited := insert i (visited st)\<rparr>"
      from False r have "dispatch (Visit n E) E i flags ?st1 = Inr st'"
        by simp
      moreover have "i \<in> visited ?st1"
        by simp
      ultimately have "step E (visited ?st1 - {i}) (visited st') (module ?st1) (module st')"
        using Suc by (intro dispatch_step)
      with False show ?thesis by simp
    qed
  qed
qed

lemma build_module_once:
  assumes "build_module n E tu = Inr st"
    and "self_classified E x"
  shows "main_count (module st) x \<le> 1 \<and> template_count (module st) x \<le> 1"
proof -
  have "for_each (Visit n E) (decls (ast E tu)) no_flags initial = Inr st"
    using assms(1) by (simp add: build_module_def VisitTranslationUnitDecl_def split: if_splits)
  with Visit_stepping
  have "step E (visited initial) (visited st) (module initial) (module st)"
    by (rule for_each_stepping)
  moreover have "main_count (module initial) x = 0" "template_count (module initial) x = 0"
    by (simp_all add: initial_def empty_Module_def main_count_def template_count_def)
  ultimately show ?thesis
    using assms(2) unfolding step_def by fastforce
qed

text \<open>
  One visit of a declaration, of any kind, raises each of its two counts by at most one;
  for a declaration that is classified by its own handler alone, so do a visit and any
  visits after it together.
\<close>

lemma go_count_le:
  "main_count (module (snd (go E d flags b st))) x \<le> main_count (module st) x + 1
   \<and> template_count (module (snd (go E d flags b st))) x \<le> template_count (module st) x + 1"
  by (auto simp: go_def Let_def add_definition_def add_declaration_def add_decl_def
        main_count_def template_count_def split: What.splits)

lemma Visit_count_le:
  assumes "Visit n E d flags st = Inr st'"
  shows "main_count (module st') d \<le> main_count (module st) d + 1
       \<and> template_count (module st') d \<le> template_count (module st) d + 1"
proof (cases "self_classified E d")
  case True
  have "step E (visited st) (visited st') (module st) (module st')"
    using Visit_stepping assms by (auto simp: stepping_def)
  with True show ?thesis
    unfolding step_def by blast
next
  case False
  show ?thesis
  proof (cases "d \<in> visited st")
    case True
    with assms have "st' = st" by (cases n) auto
    then show ?thesis by simp
  next
    case unvisited: False
    with assms obtain m where n: "n = Suc m" by (cases n) auto
    let ?st1 = "st\<lparr>visited := insert d (visited st)\<rparr>"
    have r: "dispatch (Visit m E) E d flags ?st1 = Inr st'"
      using assms unvisited n by simp
    have m1: "module ?st1 = module st" by simp
    from False consider "kind (ast E d) = EnumConstant" | "isa_VarDecl (kind (ast E d))"
      by (auto simp: self_classified_def)
    then have "st' = ?st1 \<or> st' = snd (go E d flags True ?st1)"
    proof cases
      case 1
      with r show ?thesis
        by (auto simp: dispatch_def VisitEnumConstantDecl_def)
    next
      case 2
      with r show ?thesis
        by (auto simp: dispatch_def isa_VarDecl_def VisitVarDecl_def split: if_splits)
    qed
    then show ?thesis
      using go_count_le [of E d flags True ?st1 d] by (auto simp only: m1 le_add1)
  qed
qed

lemma two_visits_count_le:
  assumes "Visit n E d flags st = Inr st1"
    and "for_each (Visit m E) ds flags2 st1 = Inr st2"
    and "self_classified E d"
  shows "main_count (module st2) d \<le> main_count (module st) d + 1
       \<and> template_count (module st2) d \<le> template_count (module st) d + 1"
proof -
  have "step E (visited st) (visited st1) (module st) (module st1)"
    using Visit_stepping assms(1) by (auto simp: stepping_def)
  moreover have "step E (visited st1) (visited st2) (module st1) (module st2)"
    using Visit_stepping assms(2) by (rule for_each_stepping)
  ultimately have "step E (visited st) (visited st2) (module st) (module st2)"
    by (rule step_trans)
  with assms(3) show ?thesis
    unfolding step_def by blast
qed

section \<open>The claims\<close>

text \<open>
  Claim C1. For every named declaration passed to \<open>go\<close>: with the verdict Definition at
  a defining occurrence the declaration is inserted as a definition and Definition is
  reported; with the verdict Definition at a non-defining occurrence it is demoted,
  inserted as a declaration, and Declaration is reported; with the verdict Declaration it
  is inserted as a declaration and Declaration is reported; with the verdict Nothing the
  module is left as it was and Nothing is reported. Inserting a definition appends to the
  definition lists by the bucket rule and leaves the declaration lists alone; inserting
  a declaration does the converse.
\<close>

theorem go_classification:
  "(shouldInclude E d = DEFINITION \<and> at_definition \<longrightarrow>
      fst (go E d flags at_definition st) = DEFINITION
    \<and> module (snd (go E d flags at_definition st)) = add_definition d flags (module st))
 \<and> (shouldInclude E d = DEFINITION \<and> \<not> at_definition \<longrightarrow>
      fst (go E d flags at_definition st) = DECLARATION
    \<and> module (snd (go E d flags at_definition st)) = add_declaration d flags (module st))
 \<and> (shouldInclude E d = DECLARATION \<longrightarrow>
      fst (go E d flags at_definition st) = DECLARATION
    \<and> module (snd (go E d flags at_definition st)) = add_declaration d flags (module st))
 \<and> (shouldInclude E d = NOTHING \<longrightarrow>
      fst (go E d flags at_definition st) = NOTHING
    \<and> module (snd (go E d flags at_definition st)) = module st)
 \<and> (definitions (add_definition d flags m), template_definitions (add_definition d flags m))
      = add_decl (definitions m) (template_definitions m) d flags
 \<and> declarations (add_definition d flags m) = declarations m
 \<and> template_declarations (add_definition d flags m) = template_declarations m
 \<and> (declarations (add_declaration d flags m), template_declarations (add_declaration d flags m))
      = add_decl (declarations m) (template_declarations m) d flags
 \<and> definitions (add_declaration d flags m) = definitions m
 \<and> template_definitions (add_declaration d flags m) = template_definitions m"
  by (simp add: go_def Let_def add_definition_def add_declaration_def split: prod.splits)

text \<open>
  The four cases on the function of the body example: accepted at its definition,
  accepted at a non-defining occurrence, declared, and excluded.
\<close>

theorem go_classification_witness:
  "fst (go body_env 1 no_flags True initial) = DEFINITION
 \<and> definitions (module (snd (go body_env 1 no_flags True initial))) = [1]
 \<and> declarations (module (snd (go body_env 1 no_flags True initial))) = []
 \<and> fst (go body_env 1 no_flags False initial) = DECLARATION
 \<and> definitions (module (snd (go body_env 1 no_flags False initial))) = []
 \<and> declarations (module (snd (go body_env 1 no_flags False initial))) = [1]
 \<and> fst (go declared_env 1 no_flags True initial) = DECLARATION
 \<and> definitions (module (snd (go declared_env 1 no_flags True initial))) = []
 \<and> declarations (module (snd (go declared_env 1 no_flags True initial))) = [1]
 \<and> fst (go excluded_env 1 no_flags True initial) = NOTHING
 \<and> module (snd (go excluded_env 1 no_flags True initial)) = empty_Module"
proof -
  have v: "shouldInclude body_env 1 = DEFINITION" "shouldInclude declared_env 1 = DECLARATION"
    "shouldInclude excluded_env 1 = NOTHING"
    by (simp_all add: body_env_def declared_env_def excluded_env_def accept_all_def
          declare_all_def reject_all_def)
  have m: "module initial = empty_Module"
    by (simp add: initial_def)
  have a: "add_definition 1 no_flags empty_Module = empty_Module\<lparr>definitions := [1]\<rparr>"
    "add_declaration 1 no_flags empty_Module = empty_Module\<lparr>declarations := [1]\<rparr>"
    by (simp_all add: add_definition_def add_declaration_def add_decl_def no_flags_def
          empty_Module_def)
  show ?thesis
    using v
      go_classification [of body_env 1 True no_flags initial empty_Module]
      go_classification [of body_env 1 False no_flags initial empty_Module]
      go_classification [of declared_env 1 True no_flags initial empty_Module]
      go_classification [of excluded_env 1 True no_flags initial empty_Module]
    by (simp add: m a) (simp add: empty_Module_def)
qed

text \<open>
  Claim C2. The bucket rule of \<open>add_decl\<close>, for definitions and declarations alike:
  with \<open>in_template\<close> the declaration is appended to the template list only;
  otherwise it is appended to the main list, and to the template list as well when
  \<open>in_specialization\<close> is set.
\<close>

theorem add_decl_bucket_rule:
  "(in_template flags \<longrightarrow>
      add_decl ds tdecls d flags = (ds, tdecls @ [d])
    \<and> add_definition d flags m = m\<lparr>template_definitions := template_definitions m @ [d]\<rparr>
    \<and> add_declaration d flags m = m\<lparr>template_declarations := template_declarations m @ [d]\<rparr>)
 \<and> (\<not> in_template flags \<and> in_specialization flags \<longrightarrow>
      add_decl ds tdecls d flags = (ds @ [d], tdecls @ [d])
    \<and> add_definition d flags m = m\<lparr>definitions := definitions m @ [d],
         template_definitions := template_definitions m @ [d]\<rparr>
    \<and> add_declaration d flags m = m\<lparr>declarations := declarations m @ [d],
         template_declarations := template_declarations m @ [d]\<rparr>)
 \<and> (\<not> in_template flags \<and> \<not> in_specialization flags \<longrightarrow>
      add_decl ds tdecls d flags = (ds @ [d], tdecls)
    \<and> add_definition d flags m = m\<lparr>definitions := definitions m @ [d]\<rparr>
    \<and> add_declaration d flags m = m\<lparr>declarations := declarations m @ [d]\<rparr>)"
  by (simp add: add_decl_def add_definition_def add_declaration_def)

text \<open>
  The three buckets on flags with \<open>in_template\<close>, with \<open>in_specialization\<close> only,
  and with neither.
\<close>

theorem add_decl_bucket_rule_witness:
  "in_template tmpl_flags \<and> add_decl [1] [2] 7 tmpl_flags = ([1], [2, 7])
 \<and> add_definition 7 tmpl_flags empty_Module = empty_Module\<lparr>template_definitions := [7]\<rparr>
 \<and> add_declaration 7 tmpl_flags empty_Module = empty_Module\<lparr>template_declarations := [7]\<rparr>
 \<and> \<not> in_template spec_flags \<and> in_specialization spec_flags \<and> add_decl [1] [2] 7 spec_flags = ([1, 7], [2, 7])
 \<and> add_definition 7 spec_flags empty_Module
      = empty_Module\<lparr>definitions := [7], template_definitions := [7]\<rparr>
 \<and> add_declaration 7 spec_flags empty_Module
      = empty_Module\<lparr>declarations := [7], template_declarations := [7]\<rparr>
 \<and> \<not> in_template no_flags \<and> \<not> in_specialization no_flags
 \<and> add_decl [1] [2] 7 no_flags = ([1, 7], [2])
 \<and> add_definition 7 no_flags empty_Module = empty_Module\<lparr>definitions := [7]\<rparr>
 \<and> add_declaration 7 no_flags empty_Module = empty_Module\<lparr>declarations := [7]\<rparr>"
proof -
  have f: "in_template tmpl_flags" "\<not> in_template spec_flags" "in_specialization spec_flags"
    "\<not> in_template no_flags" "\<not> in_specialization no_flags"
    by (simp_all add: tmpl_flags_def spec_flags_def no_flags_def)
  have e: "definitions empty_Module = []" "declarations empty_Module = []"
    "template_definitions empty_Module = []" "template_declarations empty_Module = []"
    by (simp_all add: empty_Module_def)
  show ?thesis
    using f add_decl_bucket_rule [of tmpl_flags "[1]" "[2]" 7 empty_Module]
      add_decl_bucket_rule [of spec_flags "[1]" "[2]" 7 empty_Module]
      add_decl_bucket_rule [of no_flags "[1]" "[2]" 7 empty_Module]
    by (simp add: e)
qed

text \<open>
  Claim C3, as amended. For a record or a function declaration in a built module: an
  occurrence that is not its own definition is never in a definition list, and it is in
  a declaration list only if no definition exists and it has no previous declaration.
  (Variables and enums are left out: \<open>VisitVarDecl\<close> and \<open>VisitEnumDecl\<close> call
  \<open>go\<close> with the default \<open>definition = true\<close> at every occurrence they accept, the
  latter at the canonical declaration.)
\<close>

theorem canonical_definition:
  assumes "build_module n E tu = Inr st"
    and "isa_RecordDecl (kind (ast E d)) \<or> isa_FunctionDecl (kind (ast E d))"
    and "getDefinition (ast E d) \<noteq> Some d"
  shows "d \<notin> set (definitions (module st)) \<union> set (template_definitions (module st))
       \<and> (d \<in> set (declarations (module st)) \<union> set (template_declarations (module st))
            \<longrightarrow> getDefinition (ast E d) = None \<and> getPreviousDecl (ast E d) = None)"
proof -
  have c: "classified E (module st)"
    using assms(1) by (rule build_module_classified)
  have k: "kind (ast E d) \<noteq> Typedef" "kind (ast E d) \<noteq> TypeAlias"
    "kind (ast E d) \<noteq> EnumConstant" "kind (ast E d) \<noteq> Enum"
    using assms(2) by (auto simp: isa_FunctionDecl_def isa_RecordDecl_def)
  have no_def: "\<not> go_site E d True"
    using assms(2,3) k by (auto simp: go_site_def Let_def)
  have decl: "go_site E d False \<Longrightarrow>
      getDefinition (ast E d) = None \<and> getPreviousDecl (ast E d) = None"
    using assms(2) k by (auto simp: go_site_def Let_def split: if_splits)
  show ?thesis
    using c no_def decl unfolding classified_def by blast
qed

text \<open>
  The redeclaration example: the forward declarations 1 and 3 are skipped, the
  definitions 2 and 4 are listed as definitions, and 5, which has no definition and no
  previous declaration, is listed as a declaration.
\<close>

theorem canonical_definition_witness:
  "build_module 1 redecl_env 0 = Inr redecl_final
   \<and> isa_RecordDecl (kind (ast redecl_env 1)) \<and> getDefinition (ast redecl_env 1) = Some 2
   \<and> 1 \<notin> set (definitions (module redecl_final)) \<union> set (template_definitions (module redecl_final))
   \<and> isa_FunctionDecl (kind (ast redecl_env 3)) \<and> getDefinition (ast redecl_env 3) = Some 4
   \<and> 3 \<notin> set (definitions (module redecl_final)) \<union> set (template_definitions (module redecl_final))
   \<and> isa_FunctionDecl (kind (ast redecl_env 5)) \<and> getDefinition (ast redecl_env 5) = None
   \<and> 5 \<notin> set (definitions (module redecl_final)) \<union> set (template_definitions (module redecl_final))
   \<and> 5 \<in> set (declarations (module redecl_final)) \<union> set (template_declarations (module redecl_final))
   \<and> getPreviousDecl (ast redecl_env 5) = None"
proof -
  have run: "build_module 1 redecl_env 0 = Inr redecl_final"
    by code_simp
  have k: "isa_RecordDecl (kind (ast redecl_env 1)) \<or> isa_FunctionDecl (kind (ast redecl_env 1))"
    "isa_RecordDecl (kind (ast redecl_env 3)) \<or> isa_FunctionDecl (kind (ast redecl_env 3))"
    "isa_RecordDecl (kind (ast redecl_env 5)) \<or> isa_FunctionDecl (kind (ast redecl_env 5))"
    by code_simp+
  have n: "getDefinition (ast redecl_env 1) \<noteq> Some 1" "getDefinition (ast redecl_env 3) \<noteq> Some 3"
    "getDefinition (ast redecl_env 5) \<noteq> Some 5"
    by code_simp+
  have v: "isa_RecordDecl (kind (ast redecl_env 1))" "getDefinition (ast redecl_env 1) = Some 2"
    "isa_FunctionDecl (kind (ast redecl_env 3))" "getDefinition (ast redecl_env 3) = Some 4"
    "isa_FunctionDecl (kind (ast redecl_env 5))"
    "5 \<in> set (declarations (module redecl_final)) \<union> set (template_declarations (module redecl_final))"
    by code_simp+
  show ?thesis
    using run v canonical_definition [OF run k(1) n(1)] canonical_definition [OF run k(2) n(2)]
      canonical_definition [OF run k(3) n(3)]
    by simp
qed

text \<open>
  The claim as stated includes variables and all tags. With templates enabled and a
  filter that answers Definition, the non-defining occurrence 1 of
  \<^verbatim>\<open>extern int x; int x = 0;\<close> is listed as a definition beside the defining
  occurrence 2; and of \<^verbatim>\<open>enum E : int; enum E : int { A };\<close> the canonical
  declaration 1, which does not define, is listed as a definition with the enumerator 3,
  while the defining occurrence 2 is skipped.
\<close>

theorem canonical_definition_counterexample:
  "map_sum id module (build_module 1 vars_env 0) =
     Inr \<lparr>definitions = [1, 2], declarations = [], template_definitions = [],
          template_declarations = [], asserts = []\<rparr>
   \<and> kind (ast vars_env 1) = Var \<and> getDefinition (ast vars_env 1) = Some 2
   \<and> map_sum id module (build_module 1 enum_env 0) =
     Inr \<lparr>definitions = [1, 3], declarations = [], template_definitions = [],
          template_declarations = [], asserts = []\<rparr>
   \<and> kind (ast enum_env 1) = Enum \<and> getDefinition (ast enum_env 1) = Some 2
   \<and> kind (ast enum_env 2) = Enum \<and> getDefinition (ast enum_env 2) = Some 2"
  by code_simp

text \<open>
  Claim C4. A visit of a declaration that is in the visited set returns at once with the
  state as it was, whatever the flags and the depth left. After a first visit of \<open>d\<close>
  has returned, and after any further visits, a second visit of \<open>d\<close> is such a visit:
  it dispatches nothing and inserts nothing. The first visit of any \<open>d\<close>, a variable
  or an enumerator included, inserts \<open>d\<close> at most once into the main lists and at most
  once into the template lists; so two visits of \<open>d\<close> insert it at most once. For a
  declaration that only its own handler classifies (any but a static local variable or
  an enumerator, which the static local search and \<open>VisitEnumDecl\<close> classify without
  visiting them), the visits between the two insert nothing of it either, and in a built
  module it occurs at most once in the main lists and at most once in the template
  lists.
\<close>

theorem second_visit_returns:
  "(d \<in> visited st \<longrightarrow> Visit k E d flags st = Inr st)
 \<and> (Visit n E d flags st = Inr st1 \<and> for_each (Visit m E) ds flags2 st1 = Inr st2
      \<longrightarrow> Visit k E d flags3 st2 = Inr st2)
 \<and> (Visit n E d flags st = Inr st1
      \<longrightarrow> main_count (module st1) d \<le> main_count (module st) d + 1
        \<and> template_count (module st1) d \<le> template_count (module st) d + 1)
 \<and> (Visit n E d flags st = Inr st1 \<and> for_each (Visit m E) ds flags2 st1 = Inr st2
        \<and> self_classified E d
      \<longrightarrow> main_count (module st2) d \<le> main_count (module st) d + 1
        \<and> template_count (module st2) d \<le> template_count (module st) d + 1)
 \<and> (build_module j E tu = Inr st' \<and> self_classified E d
      \<longrightarrow> main_count (module st') d \<le> 1 \<and> template_count (module st') d \<le> 1)"
proof -
  have guard: "Visit k E d fl s = Inr s" if "d \<in> visited s" for fl s
    using that by (cases k) simp_all
  have second: "Visit k E d flags3 st2 = Inr st2"
    if a: "Visit n E d flags st = Inr st1 \<and> for_each (Visit m E) ds flags2 st1 = Inr st2"
  proof -
    from a have "d \<in> visited st1"
      by (auto dest: Visit_visited)
    moreover have "extends E st1 st2"
      using Visit_extending a by (auto dest: for_each_extends)
    ultimately have "d \<in> visited st2"
      by (auto simp: extends_def)
    then show ?thesis by (rule guard)
  qed
  show ?thesis
    using guard second Visit_count_le [of n E d flags st st1]
      two_visits_count_le [of n E d flags st st1 m ds flags2 st2]
      build_module_once [of j E tu st' d]
    by blast
qed

text \<open>
  The explicit specialization 2 of the variable template 1 is reached through the
  template and as a child of the translation unit; it is listed once in the main lists
  and once in the template lists. So is the explicit specialization of the function
  template.
\<close>

theorem second_visit_returns_witness:
  "Visit 1 varspec_env 2 (set_specialization no_flags) initial = Inr varspec_mid
   \<and> for_each (Visit 1 varspec_env) [1] no_flags varspec_mid = Inr varspec_after
   \<and> 2 \<in> visited varspec_after
   \<and> Visit 1 varspec_env 2 no_flags varspec_after = Inr varspec_after
   \<and> isa_VarDecl (kind (ast varspec_env 2)) \<and> self_classified varspec_env 2
   \<and> main_count (module initial) 2 = 0 \<and> template_count (module initial) 2 = 0
   \<and> main_count (module varspec_mid) 2 = 1 \<and> template_count (module varspec_mid) 2 = 1
   \<and> main_count (module varspec_after) 2 = 1 \<and> template_count (module varspec_after) 2 = 1
   \<and> build_module 2 varspec_env 0 = Inr varspec_final
   \<and> main_count (module varspec_final) 2 = 1 \<and> template_count (module varspec_final) 2 = 1
   \<and> build_module 2 shared_env 0 = Inr shared_final
   \<and> self_classified shared_env 2
   \<and> main_count (module shared_final) 2 = 1 \<and> template_count (module shared_final) 2 = 1"
proof -
  have a: "Visit 1 varspec_env 2 (set_specialization no_flags) initial = Inr varspec_mid"
    by code_simp
  have b: "for_each (Visit 1 varspec_env) [1] no_flags varspec_mid = Inr varspec_after"
    by code_simp
  have c: "build_module 2 varspec_env 0 = Inr varspec_final"
    "build_module 2 shared_env 0 = Inr shared_final"
    by code_simp+
  have d: "2 \<in> visited varspec_after" "isa_VarDecl (kind (ast varspec_env 2))"
    "self_classified varspec_env 2" "self_classified shared_env 2"
    "main_count (module initial) 2 = 0" "template_count (module initial) 2 = 0"
    "main_count (module varspec_mid) 2 = 1" "template_count (module varspec_mid) 2 = 1"
    "main_count (module varspec_after) 2 = 1" "template_count (module varspec_after) 2 = 1"
    "main_count (module varspec_final) 2 = 1" "template_count (module varspec_final) 2 = 1"
    "main_count (module shared_final) 2 = 1" "template_count (module shared_final) 2 = 1"
    by code_simp+
  show ?thesis
    using a b c d
      second_visit_returns [where d = 2 and st = initial and k = 1 and E = varspec_env
         and flags = "set_specialization no_flags" and n = 1 and ?st1.0 = varspec_mid
         and m = 1 and ds = "[1]" and ?flags2.0 = no_flags and ?st2.0 = varspec_after
         and ?flags3.0 = no_flags and j = 2 and tu = 0 and st' = varspec_final]
    by simp
qed

text \<open>
  Claim C5, as amended. A deleted method, constructor, destructor or conversion function
  is in none of the lists of a built module.
\<close>

theorem deleted_members_excluded:
  assumes "build_module n E tu = Inr st"
    and "isa_CXXMethodDecl (kind (ast E d))"
    and "isDeleted (ast E d)"
  shows "d \<notin> set (definitions (module st)) \<union> set (declarations (module st))
           \<union> set (template_definitions (module st)) \<union> set (template_declarations (module st))
           \<union> set (asserts (module st))"
proof -
  have c: "classified E (module st)"
    using assms(1) by (rule build_module_classified)
  have "\<not> go_site E d True" "\<not> go_site E d False"
    using assms(2,3)
    by (auto simp: go_site_def Let_def isa_CXXMethodDecl_def isa_FunctionDecl_def
          isa_RecordDecl_def)
  moreover have "kind (ast E d) \<noteq> StaticAssert"
    using assms(2) by (auto simp: isa_CXXMethodDecl_def)
  ultimately show ?thesis
    using c unfolding classified_def by blast
qed

text \<open>
  The deleted constructor 11 and the deleted method 12 of the class example.
\<close>

theorem deleted_members_excluded_witness:
  "build_module 2 deleted_env 0 = Inr deleted_final
   \<and> isa_CXXMethodDecl (kind (ast deleted_env 11)) \<and> isDeleted (ast deleted_env 11)
   \<and> isa_CXXMethodDecl (kind (ast deleted_env 12)) \<and> isDeleted (ast deleted_env 12)
   \<and> 11 \<notin> set (definitions (module deleted_final)) \<union> set (declarations (module deleted_final))
           \<union> set (template_definitions (module deleted_final))
           \<union> set (template_declarations (module deleted_final))
           \<union> set (asserts (module deleted_final))
   \<and> 12 \<notin> set (definitions (module deleted_final)) \<union> set (declarations (module deleted_final))
           \<union> set (template_definitions (module deleted_final))
           \<union> set (template_declarations (module deleted_final))
           \<union> set (asserts (module deleted_final))"
proof -
  have run: "build_module 2 deleted_env 0 = Inr deleted_final"
    by code_simp
  have k11: "isa_CXXMethodDecl (kind (ast deleted_env 11))" and d11: "isDeleted (ast deleted_env 11)"
    and k12: "isa_CXXMethodDecl (kind (ast deleted_env 12))" and d12: "isDeleted (ast deleted_env 12)"
    by code_simp+
  show ?thesis
    using run k11 d11 k12 d12 deleted_members_excluded [OF run k11 d11]
      deleted_members_excluded [OF run k12 d12]
    by simp
qed

text \<open>
  The claim as stated includes functions that are not members. \<open>VisitFunctionDecl\<close>
  does not ask \<open>isDeleted\<close>: the deleted free function 20 is listed as a definition.
\<close>

theorem deleted_function_counterexample:
  "build_module 2 deleted_env 0 = Inr deleted_final
   \<and> 20 \<in> set (definitions (module deleted_final))
   \<and> kind (ast deleted_env 20) = Function \<and> isDeleted (ast deleted_env 20)"
  by code_simp

text \<open>
  Claim C6. The claim is that with template emission disabled no variable of a
  dependent context is inserted. The code on the gating example, with template emission
  disabled: \<open>VisitVarDecl\<close> returns early for the variable that is not templated and
  classifies the templated one, so the variable 1 of a dependent context is listed as a
  definition and the ordinary global 2 is skipped. \<open>VisitFunctionDecl\<close> tests the
  opposite polarity (it returns early for a function of a dependent context).
\<close>

theorem template_gating_templated_variable:
  "build_module 1 gating_env 0 = Inr gating_final
   \<and> \<not> templates gating_env
   \<and> kind (ast gating_env 1) = Var \<and> isTemplated (ast gating_env 1)
   \<and> 1 \<in> set (definitions (module gating_final))
   \<and> kind (ast gating_env 2) = Var \<and> \<not> isTemplated (ast gating_env 2)
   \<and> 2 \<notin> set (definitions (module gating_final))"
  by code_simp

text \<open>
  Claim C7, as amended. When the filter accepts the defining occurrence of a function as
  a Definition, the declarations of the function are searched for static local variables
  and \<open>go\<close> is called on each of them, in order, with \<open>definition = true\<close>. So the
  filter is asked about each static local, and the static local is listed as its own
  verdict says: in a definition list for Definition, in a declaration list for
  Declaration, and not at all for Nothing.
\<close>

theorem static_locals_follow_filter:
  assumes "templates E \<or> \<not> isDependentContext (ast E d)"
    and "getDefinition (ast E d) = Some d"
    and "shouldInclude E d = DEFINITION"
    and "v \<in> set (decls (ast E d))"
    and "isa_VarDecl (kind (ast E v))"
    and "isStaticLocal (ast E v)"
  shows "VisitFunctionDecl E d flags st =
           go_each E (filter (\<lambda>i. isa_VarDecl (kind (ast E i)) \<and> isStaticLocal (ast E i))
               (decls (ast E d))) flags
             (snd (go E d flags True
                (case getRawComment (ast E d) of
                   Some c \<Rightarrow> st\<lparr>calls := calls st @ [AddSpecification d c]\<rparr>
                 | None \<Rightarrow> st)))
       \<and> ShouldInclude v \<in> set (calls (VisitFunctionDecl E d flags st))
       \<and> (shouldInclude E v = DEFINITION \<longrightarrow>
            v \<in> set (definitions (module (VisitFunctionDecl E d flags st)))
              \<union> set (template_definitions (module (VisitFunctionDecl E d flags st))))
       \<and> (shouldInclude E v = DECLARATION \<longrightarrow>
            v \<in> set (declarations (module (VisitFunctionDecl E d flags st)))
              \<union> set (template_declarations (module (VisitFunctionDecl E d flags st))))
       \<and> ((\<forall>i \<in> set (decls (ast E d)).
              isa_VarDecl (kind (ast E i)) \<and> isStaticLocal (ast E i)
                \<longrightarrow> shouldInclude E i = NOTHING) \<longrightarrow>
            module (VisitFunctionDecl E d flags st) = add_definition d flags (module st))"
proof -
  let ?xs = "filter (\<lambda>i. isa_VarDecl (kind (ast E i)) \<and> isStaticLocal (ast E i))
               (decls (ast E d))"
  let ?st1 = "case getRawComment (ast E d) of
                Some c \<Rightarrow> st\<lparr>calls := calls st @ [AddSpecification d c]\<rparr>
              | None \<Rightarrow> st"
  let ?st2 = "snd (go E d flags True ?st1)"
  have eq: "VisitFunctionDecl E d flags st = go_each E ?xs flags ?st2"
    using assms(1,2,3) by (simp add: VisitFunctionDecl_accepted Let_def)
  have v: "v \<in> set ?xs"
    using assms(4,5,6) by simp
  have "ShouldInclude v \<in> set (calls (go_each E ?xs flags ?st2))"
    using v by (simp add: go_each_calls)
  moreover have "shouldInclude E v = DEFINITION \<Longrightarrow>
      v \<in> set (definitions (module (go_each E ?xs flags ?st2)))
        \<union> set (template_definitions (module (go_each E ?xs flags ?st2)))"
    using v by (rule go_each_lists(1))
  moreover have "shouldInclude E v = DECLARATION \<Longrightarrow>
      v \<in> set (declarations (module (go_each E ?xs flags ?st2)))
        \<union> set (template_declarations (module (go_each E ?xs flags ?st2)))"
    using v by (rule go_each_lists(2))
  moreover have "module (go_each E ?xs flags ?st2) = add_definition d flags (module st)"
    if "\<forall>i \<in> set (decls (ast E d)).
          isa_VarDecl (kind (ast E i)) \<and> isStaticLocal (ast E i) \<longrightarrow> shouldInclude E i = NOTHING"
  proof -
    have "\<forall>i \<in> set ?xs. shouldInclude E i = NOTHING"
      using that by simp
    then have "module (go_each E ?xs flags ?st2) = module ?st2"
      by (rule go_each_nothing)
    also have "\<dots> = add_definition d flags (module st)"
      using assms(3) by (simp add: go_def Let_def split: option.splits)
    finally show ?thesis .
  qed
  ultimately show ?thesis
    unfolding eq by blast
qed

text \<open>
  The body example: the static local 2 is found and classified.
\<close>

theorem static_locals_follow_filter_witness:
  "\<not> isDependentContext (ast body_env 1) \<and> getDefinition (ast body_env 1) = Some 1
   \<and> shouldInclude body_env 1 = DEFINITION \<and> 2 \<in> set (decls (ast body_env 1))
   \<and> isa_VarDecl (kind (ast body_env 2)) \<and> isStaticLocal (ast body_env 2)
   \<and> shouldInclude body_env 2 = DEFINITION
   \<and> VisitFunctionDecl body_env 1 no_flags initial = body_final
   \<and> ShouldInclude 2 \<in> set (calls body_final)
   \<and> 2 \<in> set (definitions (module body_final)) \<union> set (template_definitions (module body_final))"
proof -
  have h: "templates body_env \<or> \<not> isDependentContext (ast body_env 1)"
    "getDefinition (ast body_env 1) = Some 1" "shouldInclude body_env 1 = DEFINITION"
    "2 \<in> set (decls (ast body_env 1))" "isa_VarDecl (kind (ast body_env 2))"
    "isStaticLocal (ast body_env 2)"
    by code_simp+
  have r: "VisitFunctionDecl body_env 1 no_flags initial = body_final"
    by code_simp
  have v: "shouldInclude body_env 2 = DEFINITION" "\<not> isDependentContext (ast body_env 1)"
    by code_simp+
  note t = static_locals_follow_filter [OF h, of no_flags initial, THEN conjunct2, unfolded r]
  show ?thesis
    using h r v t by simp
qed

text \<open>
  The claim as stated has every static local in the declaration lists. With a filter that
  answers Definition the static local 2 is in the definition list and in no declaration
  list.
\<close>

theorem static_local_counterexample:
  "VisitFunctionDecl body_env 1 no_flags initial = body_final
   \<and> shouldInclude body_env 1 = DEFINITION \<and> getDefinition (ast body_env 1) = Some 1
   \<and> 2 \<in> set (decls (ast body_env 1))
   \<and> isa_VarDecl (kind (ast body_env 2)) \<and> isStaticLocal (ast body_env 2)
   \<and> 2 \<in> set (definitions (module body_final))
   \<and> 2 \<notin> set (declarations (module body_final))
   \<and> 2 \<notin> set (template_declarations (module body_final))"
  by code_simp

text \<open>
  Claim C8, as amended. Printing a local variable writes one tuple of three fields: the
  name between double quotes, the qualified type, and the initializer as an explicit
  option. Without an initializer the third field is \<^verbatim>\<open>None\<close>; with the initializer
  \<open>E\<close> it is the parenthesised application \<^verbatim>\<open>(Some E)\<close>, which \<open>print.ctor\<close> opens
  and the \<open>fmt::rparen\<close> after the expression closes. Nothing is written to the
  diagnostics.
\<close>

theorem printLocalDecl_var:
  assumes "isa_VarDecl (kind D)"
  shows "formatter (printLocalDecl cprint D print) =
           formatter print
           @ [lparen, str [CHR 0x22], str (getNameAsString D), str [CHR 0x22, CHR '',''], nbsp]
           @ type_term cprint (getType D)
           @ [str '','', nbsp]
           @ (case getInit D of
                None \<Rightarrow> [str ''None'']
              | Some e \<Rightarrow> [lparen, str ''Some'', nbsp] @ expr_term cprint e @ [rparen])
           @ [rparen]
       \<and> render (formatter (printLocalDecl cprint D print)) =
           render (formatter print)
           @ [CHR ''('', CHR 0x22] @ getNameAsString D @ [CHR 0x22, CHR '','', CHR '' '']
           @ render (type_term cprint (getType D))
           @ '', ''
           @ (case getInit D of
                None \<Rightarrow> ''None''
              | Some e \<Rightarrow> ''(Some '' @ render (expr_term cprint e) @ '')'')
           @ '')''
       \<and> diagnostics (printLocalDecl cprint D print) = diagnostics print"
proof -
  have f: "formatter (printLocalDecl cprint D print) =
           formatter print
           @ [lparen, str [CHR 0x22], str (getNameAsString D), str [CHR 0x22, CHR '',''], nbsp]
           @ type_term cprint (getType D)
           @ [str '','', nbsp]
           @ (case getInit D of
                None \<Rightarrow> [str ''None'']
              | Some e \<Rightarrow> [lparen, str ''Some'', nbsp] @ expr_term cprint e @ [rparen])
           @ [rparen]"
    using assms
    by (simp add: printLocalDecl_def PrintLocalDecl_VisitVarDecl_def Let_def out_def ctor_def
          printQualType_def printExpr_def split: option.splits)
  have d: "diagnostics (printLocalDecl cprint D print) = diagnostics print"
    using assms
    by (simp add: printLocalDecl_def PrintLocalDecl_VisitVarDecl_def Let_def out_def ctor_def
          printQualType_def printExpr_def split: option.splits)
  show ?thesis
    unfolding f using d
    by (simp add: render_append render_simps split: option.splits)
qed

text \<open>
  The variable \<^verbatim>\<open>int x\<close>, without and with the initializer \<^verbatim>\<open>E\<close>.
\<close>

theorem printLocalDecl_var_witness:
  \<open>isa_VarDecl (kind local_x)
   \<and> render (formatter (printLocalDecl sample_cprint local_x empty_print))
       = ''("x", Tint, None)''
   \<and> isa_VarDecl (kind (local_x\<lparr>getInit := Some ''E''\<rparr>))
   \<and> render (formatter (printLocalDecl sample_cprint (local_x\<lparr>getInit := Some ''E''\<rparr>) empty_print))
       = ''("x", Tint, (Some E))''\<close>
proof -
  have k: "isa_VarDecl (kind local_x)" "isa_VarDecl (kind (local_x\<lparr>getInit := Some ''E''\<rparr>))"
    by (simp_all add: local_x_def plain_def isa_VarDecl_def)
  have v: "getNameAsString local_x = ''x''" "getType local_x = ''int''" "getInit local_x = None"
    "type_term sample_cprint ''int'' = [str ''Tint'']" "expr_term sample_cprint ''E'' = [str ''E'']"
    "formatter empty_print = []"
    by (simp_all add: local_x_def plain_def sample_cprint_def empty_print_def)
  show ?thesis
    using k printLocalDecl_var [OF k(1), of sample_cprint empty_print]
      printLocalDecl_var [OF k(2), of sample_cprint empty_print]
    by (simp add: v render_simps)
qed

text \<open>
  The claim as stated gives the text with the initializer as the tuple with a bare
  \<^verbatim>\<open>Some E\<close>; the text written has \<^verbatim>\<open>(Some E)\<close>.
\<close>

theorem printLocalDecl_initializer_counterexample:
  \<open>render (formatter (printLocalDecl sample_cprint (local_x\<lparr>getInit := Some ''E''\<rparr>) empty_print))
       = ''("x", Tint, (Some E))''
   \<and> render (formatter (printLocalDecl sample_cprint (local_x\<lparr>getInit := Some ''E''\<rparr>) empty_print))
       \<noteq> ''("x", Tint, Some E)''\<close>
  by code_simp

text \<open>
  Claim C9. For a declaration of any class other than \<open>VarDecl\<close> and the classes
  derived from it, \<open>printLocalDecl\<close> writes the message
  \<^verbatim>\<open>unexpected local declaration\<close> through \<open>print.error()\<close> and returns: what was
  written before stays, the error marker follows it, and the printer goes on with the
  next declaration.
\<close>

theorem printLocalDecl_unexpected:
  assumes "\<not> isa_VarDecl (kind D)"
  shows "printLocalDecl cprint D print =
           print\<lparr>formatter := formatter print @ [error_marker ''unexpected local declaration''],
                 diagnostics := diagnostics print @ [''unexpected local declaration'']\<rparr>"
  using assms by (simp add: printLocalDecl_def PrintLocalDecl_VisitDecl_def print_error_def)

text \<open>
  A function declaration where a local declaration is expected, followed by the local
  variable \<^verbatim>\<open>int x\<close>.
\<close>

theorem printLocalDecl_unexpected_witness:
  \<open>\<not> isa_VarDecl (kind (local_x\<lparr>kind := Function\<rparr>))
   \<and> printLocalDecl sample_cprint (local_x\<lparr>kind := Function\<rparr>) empty_print
       = \<lparr>formatter = [error_marker ''unexpected local declaration''],
          diagnostics = [''unexpected local declaration'']\<rparr>
   \<and> render (formatter (printLocalDecl sample_cprint local_x
        (printLocalDecl sample_cprint (local_x\<lparr>kind := Function\<rparr>) empty_print)))
       = ''unexpected local declaration("x", Tint, None)''\<close>
proof -
  have k: "\<not> isa_VarDecl (kind (local_x\<lparr>kind := Function\<rparr>))"
    by (simp add: isa_VarDecl_def)
  have r: "render (formatter (printLocalDecl sample_cprint local_x
             \<lparr>formatter = [error_marker ''unexpected local declaration''],
              diagnostics = [''unexpected local declaration'']\<rparr>))
           = ''unexpected local declaration'' @ [CHR ''('', CHR 0x22] @ ''x'' 
             @ [CHR 0x22] @ '', Tint, None)''"
    by code_simp
  show ?thesis
    using k r printLocalDecl_unexpected [OF k, of sample_cprint empty_print]
    by (simp add: empty_print_def)
qed

text \<open>
  Claim C10, as amended. When \<open>VisitFunctionDecl\<close> is at the defining occurrence of a
  function that has a raw comment (and, with template emission disabled, is not in a
  dependent context), \<open>add_specification\<close> is called first and the filter is asked
  after it, whatever the filter then answers; the only later calls are the filter's on
  the static locals of an accepted definition. With the verdict Nothing the module is
  unchanged and the specification has been collected all the same. A first visit of a
  function of any class that is not a deleted method, constructor, destructor or
  conversion function is exactly this call of \<open>VisitFunctionDecl\<close>.
\<close>

theorem specification_before_filter:
  assumes "templates E \<or> \<not> isDependentContext (ast E d)"
    and "getDefinition (ast E d) = Some d"
    and "getRawComment (ast E d) = Some c"
  shows "calls (VisitFunctionDecl E d flags st) =
           calls st @ [AddSpecification d c, ShouldInclude d]
             @ (if shouldInclude E d = DEFINITION
                then map ShouldInclude
                   (filter (\<lambda>i. isa_VarDecl (kind (ast E i)) \<and> isStaticLocal (ast E i))
                      (decls (ast E d)))
                else [])
       \<and> (shouldInclude E d = NOTHING \<longrightarrow>
            module (VisitFunctionDecl E d flags st) = module st)
       \<and> (isa_FunctionDecl (kind (ast E d))
            \<and> \<not> (isa_CXXMethodDecl (kind (ast E d)) \<and> isDeleted (ast E d)) \<longrightarrow>
            dispatch visit E d flags st = Inr (VisitFunctionDecl E d flags st))
       \<and> (isa_FunctionDecl (kind (ast E d))
            \<and> \<not> (isa_CXXMethodDecl (kind (ast E d)) \<and> isDeleted (ast E d))
            \<and> d \<notin> visited st \<longrightarrow>
            Visit (Suc n) E d flags st =
              Inr (VisitFunctionDecl E d flags (st\<lparr>visited := insert d (visited st)\<rparr>))
          \<and> calls (VisitFunctionDecl E d flags (st\<lparr>visited := insert d (visited st)\<rparr>)) =
              calls st @ [AddSpecification d c, ShouldInclude d]
                @ (if shouldInclude E d = DEFINITION
                   then map ShouldInclude
                      (filter (\<lambda>i. isa_VarDecl (kind (ast E i)) \<and> isStaticLocal (ast E i))
                         (decls (ast E d)))
                   else []))"
proof -
  have disp: "dispatch v E d flags s = Inr (VisitFunctionDecl E d flags s)"
    if "isa_FunctionDecl (kind (ast E d))"
      and "\<not> (isa_CXXMethodDecl (kind (ast E d)) \<and> isDeleted (ast E d))" for v s
    using that
    by (auto simp: isa_FunctionDecl_def isa_CXXMethodDecl_def dispatch_def
          VisitCXXMethodDecl_def VisitCXXConstructorDecl_def VisitCXXDestructorDecl_def)
  have tr: "calls (VisitFunctionDecl E d flags s) =
           calls s @ [AddSpecification d c, ShouldInclude d]
             @ (if shouldInclude E d = DEFINITION
                then map ShouldInclude
                   (filter (\<lambda>i. isa_VarDecl (kind (ast E i)) \<and> isStaticLocal (ast E i))
                      (decls (ast E d)))
                else [])" for s
    using assms by (simp add: VisitFunctionDecl_accepted Let_def go_each_calls go_calls)
  have no: "module (VisitFunctionDecl E d flags st) = module st" if "shouldInclude E d = NOTHING"
    using assms that by (simp add: VisitFunctionDecl_accepted Let_def go_lists(3))
  show ?thesis
    using disp [of visit st] disp [of "Visit n E" "st\<lparr>visited := insert d (visited st)\<rparr>"]
      tr [of st] tr [of "st\<lparr>visited := insert d (visited st)\<rparr>"] no
    by simp
qed

text \<open>
  The commented function of the body example under a filter that excludes everything.
\<close>

theorem specification_before_filter_witness:
  "\<not> templates excluded_env \<and> \<not> isDependentContext (ast excluded_env 1)
   \<and> getDefinition (ast excluded_env 1) = Some 1
   \<and> getRawComment (ast excluded_env 1) = Some ''spec''
   \<and> shouldInclude excluded_env 1 = NOTHING
   \<and> isa_FunctionDecl (kind (ast excluded_env 1))
   \<and> \<not> isa_CXXMethodDecl (kind (ast excluded_env 1))
   \<and> 1 \<notin> visited initial
   \<and> dispatch (Visit 0 excluded_env) excluded_env 1 no_flags initial
        = Inr (VisitFunctionDecl excluded_env 1 no_flags initial)
   \<and> Visit 1 excluded_env 1 no_flags initial = Inr (excluded_final\<lparr>visited := {1}\<rparr>)
   \<and> calls (VisitFunctionDecl excluded_env 1 no_flags initial)
        = [AddSpecification 1 ''spec'', ShouldInclude 1]
   \<and> module (VisitFunctionDecl excluded_env 1 no_flags initial) = empty_Module
   \<and> build_module 1 excluded_env 0 = Inr (excluded_final\<lparr>visited := {1}\<rparr>)"
proof -
  have h: "templates excluded_env \<or> \<not> isDependentContext (ast excluded_env 1)"
    "getDefinition (ast excluded_env 1) = Some 1"
    "getRawComment (ast excluded_env 1) = Some ''spec''"
    by code_simp+
  have v: "\<not> templates excluded_env" "\<not> isDependentContext (ast excluded_env 1)"
    "shouldInclude excluded_env 1 = NOTHING" "calls initial = []" "module initial = empty_Module"
    "isa_FunctionDecl (kind (ast excluded_env 1))"
    "\<not> isa_CXXMethodDecl (kind (ast excluded_env 1))" "1 \<notin> visited initial"
    by code_simp+
  have r: "build_module 1 excluded_env 0 = Inr (excluded_final\<lparr>visited := {1}\<rparr>)"
    "Visit 1 excluded_env 1 no_flags initial = Inr (excluded_final\<lparr>visited := {1}\<rparr>)"
    by code_simp+
  show ?thesis
    using h v r
      specification_before_filter [OF h, of no_flags initial "Visit 0 excluded_env" 0]
    by simp
qed

text \<open>
  The claim as stated excepts only the functions of a dependent context. A deleted
  method that is its own definition and has a comment is visited, and
  \<open>VisitCXXMethodDecl\<close> returns before \<open>VisitFunctionDecl\<close> is reached: no
  specification is collected for it.
\<close>

theorem deleted_member_comment_counterexample:
  "Visit 1 commented_deleted_env 1 no_flags initial = Inr (initial\<lparr>visited := {1}\<rparr>)
   \<and> calls (initial\<lparr>visited := {1}\<rparr>) = []
   \<and> kind (ast commented_deleted_env 1) = CXXMethod
   \<and> isDeleted (ast commented_deleted_env 1)
   \<and> getDefinition (ast commented_deleted_env 1) = Some 1
   \<and> getRawComment (ast commented_deleted_env 1) = Some ''spec''
   \<and> \<not> isDependentContext (ast commented_deleted_env 1)
   \<and> build_module 2 commented_deleted_env 0 = Inr commented_deleted_final
   \<and> AddSpecification 1 ''spec'' \<notin> set (calls commented_deleted_final)"
  by code_simp

end
